theory Spec2Isabelle
  imports Complex_Main
begin

section \<open>JavaScript numbers\<close>

text \<open>
  Every numeric value of \<^verbatim>\<open>SSARdsp.js\<close> is a JavaScript number. The model keeps the
  three non-finite values of a double apart from the finite ones, because several
  functions of the library divide without a guard and the results (\<^verbatim>\<open>NaN\<close>,
  \<^verbatim>\<open>Infinity\<close>, \<^verbatim>\<open>-Infinity\<close>) are then stored and returned like any other number.
  Finite values are exact reals: overflow to infinity and the sign of zero are not
  modelled (the one zero of the model divides like \<^verbatim>\<open>+0\<close>), and the operations
  below do not round. Rounding is modelled where a result depends on it: the section on
  the resampler has the operations that round as doubles do, and the resampler and the
  vector quantizer are written with them.
\<close>

datatype num = Fin real | PInf | NInf | NaN

fun is_finite :: "num \<Rightarrow> bool" where
  "is_finite (Fin x) = True"
| "is_finite PInf = False"
| "is_finite NInf = False"
| "is_finite NaN = False"

text \<open>Unary minus.\<close>

fun nneg :: "num \<Rightarrow> num" where
  "nneg (Fin x) = Fin (- x)"
| "nneg PInf = NInf"
| "nneg NInf = PInf"
| "nneg NaN = NaN"

text \<open>The infinity with the sign of a nonzero real.\<close>

definition inf_sign :: "real \<Rightarrow> num" where
  "inf_sign x = (if 0 < x then PInf else NInf)"

text \<open>\<^verbatim>\<open>a + b\<close>: opposite infinities give \<^verbatim>\<open>NaN\<close>.\<close>

fun nadd :: "num \<Rightarrow> num \<Rightarrow> num" where
  "nadd (Fin x) (Fin y) = Fin (x + y)"
| "nadd NaN b = NaN"
| "nadd a NaN = NaN"
| "nadd PInf NInf = NaN"
| "nadd NInf PInf = NaN"
| "nadd PInf b = PInf"
| "nadd NInf b = NInf"
| "nadd a PInf = PInf"
| "nadd a NInf = NInf"

text \<open>\<^verbatim>\<open>a - b\<close> is \<^verbatim>\<open>a + (-b)\<close> on doubles.\<close>

definition nsub :: "num \<Rightarrow> num \<Rightarrow> num" where
  "nsub a b = nadd a (nneg b)"

text \<open>\<^verbatim>\<open>a * b\<close>: zero times an infinity is \<^verbatim>\<open>NaN\<close>.\<close>

fun nmul :: "num \<Rightarrow> num \<Rightarrow> num" where
  "nmul (Fin x) (Fin y) = Fin (x * y)"
| "nmul NaN b = NaN"
| "nmul a NaN = NaN"
| "nmul (Fin x) PInf = (if x = 0 then NaN else inf_sign x)"
| "nmul (Fin x) NInf = (if x = 0 then NaN else inf_sign (- x))"
| "nmul PInf (Fin y) = (if y = 0 then NaN else inf_sign y)"
| "nmul NInf (Fin y) = (if y = 0 then NaN else inf_sign (- y))"
| "nmul PInf PInf = PInf"
| "nmul PInf NInf = NInf"
| "nmul NInf PInf = NInf"
| "nmul NInf NInf = PInf"

text \<open>
  \<^verbatim>\<open>a / b\<close>: a nonzero finite value over zero is an infinity, zero over zero is
  \<^verbatim>\<open>NaN\<close>, a finite value over an infinity is zero.
\<close>

fun ndiv :: "num \<Rightarrow> num \<Rightarrow> num" where
  "ndiv (Fin x) (Fin y) =
     (if y = 0 then (if x = 0 then NaN else inf_sign x) else Fin (x / y))"
| "ndiv NaN b = NaN"
| "ndiv a NaN = NaN"
| "ndiv (Fin x) PInf = Fin 0"
| "ndiv (Fin x) NInf = Fin 0"
| "ndiv PInf (Fin y) = (if 0 \<le> y then PInf else NInf)"
| "ndiv NInf (Fin y) = (if 0 \<le> y then NInf else PInf)"
| "ndiv PInf b = NaN"
| "ndiv NInf b = NaN"

text \<open>\<^verbatim>\<open>a < b\<close> and \<^verbatim>\<open>a > b\<close>: every comparison with \<^verbatim>\<open>NaN\<close> is false.\<close>

fun nlt :: "num \<Rightarrow> num \<Rightarrow> bool" where
  "nlt (Fin x) (Fin y) = (x < y)"
| "nlt NaN b = False"
| "nlt a NaN = False"
| "nlt a NInf = False"
| "nlt PInf b = False"
| "nlt NInf b = True"
| "nlt a PInf = True"

definition ngt :: "num \<Rightarrow> num \<Rightarrow> bool" where
  "ngt a b = nlt b a"

text \<open>\<^verbatim>\<open>Math.floor\<close>, \<^verbatim>\<open>Math.ceil\<close> and \<^verbatim>\<open>Math.sqrt\<close>.\<close>

fun nfloor :: "num \<Rightarrow> num" where
  "nfloor (Fin x) = Fin (of_int \<lfloor>x\<rfloor>)"
| "nfloor a = a"

fun nceil :: "num \<Rightarrow> num" where
  "nceil (Fin x) = Fin (of_int \<lceil>x\<rceil>)"
| "nceil a = a"

fun nsqrt :: "num \<Rightarrow> num" where
  "nsqrt (Fin x) = (if x < 0 then NaN else Fin (sqrt x))"
| "nsqrt PInf = PInf"
| "nsqrt NInf = NaN"
| "nsqrt NaN = NaN"

text \<open>
  Reading index \<open>i\<close> of an array. Past the end JavaScript yields \<^verbatim>\<open>undefined\<close>, which
  every use in this library turns into \<^verbatim>\<open>NaN\<close>: arithmetic and comparisons convert
  it with \<^verbatim>\<open>ToNumber\<close>, and storing it into a \<^verbatim>\<open>Float64Array\<close> does the same.
\<close>

definition rd :: "num list \<Rightarrow> nat \<Rightarrow> num" where
  "rd xs i = (if i < length xs then xs ! i else NaN)"

section \<open>Levinson-Durbin recursion\<close>

text \<open>
  \<^verbatim>\<open>levinsonDurbin(R, order)\<close>, lines 89-107. The arrays \<open>a\<close> and \<open>e\<close> are
  \<^verbatim>\<open>Float64Array(order + 1)\<close>, zero-filled; one iteration of the outer loop is
  \<open>ld_step\<close>. The coefficient update of line 101-103 writes \<open>a[j]\<close> while it is still
  reading \<open>a[m - j]\<close> from the same array, so the fold threads the array being
  written.
\<close>

definition ld_sum :: "num list \<Rightarrow> num list \<Rightarrow> nat \<Rightarrow> num" where
  "ld_sum R a m = foldl (\<lambda>s j. nadd s (nmul (a ! j) (rd R (m - j)))) (rd R m) [1..<m]"

definition ld_update :: "num \<Rightarrow> nat \<Rightarrow> num list \<Rightarrow> num list" where
  "ld_update k m a = foldl (\<lambda>a j. a[j := nadd (a ! j) (nmul k (a ! (m - j)))]) a [1..<m]"

definition ld_step :: "num list \<Rightarrow> num list \<times> num list \<Rightarrow> nat \<Rightarrow> num list \<times> num list" where
  "ld_step R s m =
     (let a = fst s; e = snd s;
          k = ndiv (nneg (ld_sum R a m)) (e ! (m - 1))
      in (ld_update k m (a[m := k]),
          e[m := nmul (e ! (m - 1)) (nsub (Fin 1) (nmul k k))]))"

definition ld_init :: "num list \<Rightarrow> nat \<Rightarrow> num list \<times> num list" where
  "ld_init R order =
     ((replicate (order + 1) (Fin 0))[0 := Fin 1], (replicate (order + 1) (Fin 0))[0 := rd R 0])"

definition ld_run :: "num list \<Rightarrow> nat \<Rightarrow> num list \<times> num list" where
  "ld_run R order = foldl (ld_step R) (ld_init R order) [1..<order + 1]"

definition levinsonDurbin :: "num list \<Rightarrow> nat \<Rightarrow> num list" where
  "levinsonDurbin R order = fst (ld_run R order)"

text \<open>The error energies \<open>e\<close> are local to the call; \<open>ld_energy\<close> exposes them.\<close>

definition ld_energy :: "num list \<Rightarrow> nat \<Rightarrow> num list" where
  "ld_energy R order = snd (ld_run R order)"

text \<open>
  The recursion as the specification words it: within step \<open>m\<close> every read of the
  coefficient update sees the coefficients of order \<open>m - 1\<close> (a snapshot \<open>old\<close> of the
  array taken after \<open>a[m]\<close> is set). Everything else is as in \<open>ld_step\<close>.
\<close>

definition ref_update :: "num \<Rightarrow> nat \<Rightarrow> num list \<Rightarrow> num list" where
  "ref_update k m old = foldl (\<lambda>a j. a[j := nadd (old ! j) (nmul k (old ! (m - j)))]) old [1..<m]"

definition ref_step :: "num list \<Rightarrow> num list \<times> num list \<Rightarrow> nat \<Rightarrow> num list \<times> num list" where
  "ref_step R s m =
     (let a = fst s; e = snd s;
          k = ndiv (nneg (ld_sum R a m)) (e ! (m - 1))
      in (ref_update k m (a[m := k]),
          e[m := nmul (e ! (m - 1)) (nsub (Fin 1) (nmul k k))]))"

definition levinsonDurbin_reference :: "num list \<Rightarrow> nat \<Rightarrow> num list" where
  "levinsonDurbin_reference R order = fst (foldl (ref_step R) (ld_init R order) [1..<order + 1])"

text \<open>
  The pair of arrays after the first \<open>n\<close> iterations of the outer loop;
  \<open>ld_run R order\<close> is \<open>ld_state R order order\<close>.
\<close>

definition ld_state :: "num list \<Rightarrow> nat \<Rightarrow> nat \<Rightarrow> num list \<times> num list" where
  "ld_state R order n = foldl (ld_step R) (ld_init R order) [1..<n + 1]"

text \<open>
  The state a breakdown leaves behind after step \<open>n\<close>: no coefficient \<open>a[1..n]\<close> is
  finite and the energy \<open>e[n]\<close> is \<^verbatim>\<open>NaN\<close>.
\<close>

definition broken :: "nat \<Rightarrow> num list \<times> num list \<Rightarrow> bool" where
  "broken n s = ((\<forall>j. 1 \<le> j \<and> j \<le> n \<longrightarrow> \<not> is_finite (fst s ! j)) \<and> snd s ! n = NaN)"

text \<open>
  Positive semidefiniteness of the symmetric Toeplitz matrix \<open>T i j = r |i - j|\<close>
  (\<open>i, j \<le> n\<close>) of an autocorrelation vector: its quadratic form is nowhere negative.
\<close>

definition toeplitz_form :: "real list \<Rightarrow> nat \<Rightarrow> (nat \<Rightarrow> real) \<Rightarrow> real" where
  "toeplitz_form r n v = (\<Sum>i\<le>n. \<Sum>j\<le>n. v i * v j * r ! (if i \<le> j then j - i else i - j))"

definition toeplitz_psd :: "real list \<Rightarrow> nat \<Rightarrow> bool" where
  "toeplitz_psd r n = (\<forall>v. 0 \<le> toeplitz_form r n v)"

section \<open>Autocorrelation\<close>

text \<open>
  \<^verbatim>\<open>autocorr(signal)\<close>, lines 75-86: for each lag the sum starts at \<open>0\<close> and adds the
  products in ascending \<open>i\<close>; every read has \<open>i + lag < n\<close>.
\<close>

definition autocorr :: "num list \<Rightarrow> num list" where
  "autocorr signal =
     (let n = length signal
      in map (\<lambda>lag. foldl (\<lambda>sum i. nadd sum (nmul (signal ! i) (signal ! (i + lag))))
                         (Fin 0) [0..<n - lag])
             [0..<n])"

text \<open>
  The lag sum of a signal of finite samples in exact arithmetic,
  \<open>ac[lag] = \<Sum> i < n - lag. signal[i] * signal[i + lag]\<close>.
\<close>

definition ac_real :: "real list \<Rightarrow> nat \<Rightarrow> real" where
  "ac_real xs lag = (\<Sum>i<length xs - lag. xs ! i * xs ! (i + lag))"

section \<open>Resampler\<close>

datatype error = RangeError | TypeError

text \<open>
  Reading an array at a number: \<^verbatim>\<open>undefined\<close> (\<open>None\<close>) unless the number is a
  non-negative integer below the length. \<open>to_number\<close> is the conversion every later
  use applies to the value read.
\<close>

fun idx :: "num list \<Rightarrow> num \<Rightarrow> num option" where
  "idx xs (Fin x) =
     (if 0 \<le> x \<and> x = of_int \<lfloor>x\<rfloor> \<and> nat \<lfloor>x\<rfloor> < length xs then Some (xs ! nat \<lfloor>x\<rfloor>) else None)"
| "idx xs a = None"

fun to_number :: "num option \<Rightarrow> num" where
  "to_number None = NaN"
| "to_number (Some v) = v"

text \<open>
  \<^verbatim>\<open>new Float64Array(len)\<close>: \<^verbatim>\<open>NaN\<close> counts as length \<open>0\<close>, a fraction is truncated
  towards zero, a negative or infinite length throws \<^verbatim>\<open>RangeError\<close>. The engine's
  allocation limit is not modelled.
\<close>

fun typed_array_length :: "num \<Rightarrow> error + nat" where
  "typed_array_length NaN = Inr 0"
| "typed_array_length PInf = Inl RangeError"
| "typed_array_length NInf = Inl RangeError"
| "typed_array_length (Fin x) =
     (let t = (if 0 \<le> x then \<lfloor>x\<rfloor> else \<lceil>x\<rceil>)
      in if t < 0 then Inl RangeError else Inr (nat t))"

text \<open>
  Double precision. The engine rounds the result of every arithmetic operation to the
  nearest double, ties to the even significand. \<open>fl\<close> is that rounding of a real with
  a significand of 53 bits; the exponent range is taken as unbounded (no overflow, no
  subnormal numbers). \<open>fadd\<close>, \<open>fsub\<close>, \<open>fmul\<close> and \<open>fdiv\<close> are the four operations
  followed by the rounding.
\<close>

definition round_even :: "real \<Rightarrow> int" where
  "round_even x =
     (let f = \<lfloor>x\<rfloor>; r = x - of_int f
      in if r < 1 / 2 then f else if 1 / 2 < r then f + 1 else if even f then f else f + 1)"

definition fl :: "real \<Rightarrow> real" where
  "fl x =
     (if x = 0 then 0
      else let u = 2 powr (of_int \<lfloor>log 2 \<bar>x\<bar>\<rfloor> - 52)
           in of_int (round_even (x / u)) * u)"

fun nround :: "num \<Rightarrow> num" where
  "nround (Fin x) = Fin (fl x)"
| "nround a = a"

definition fadd :: "num \<Rightarrow> num \<Rightarrow> num" where
  "fadd a b = nround (nadd a b)"

definition fsub :: "num \<Rightarrow> num \<Rightarrow> num" where
  "fsub a b = nround (nsub a b)"

definition fmul :: "num \<Rightarrow> num \<Rightarrow> num" where
  "fmul a b = nround (nmul a b)"

definition fdiv :: "num \<Rightarrow> num \<Rightarrow> num" where
  "fdiv a b = nround (ndiv a b)"

text \<open>
  \<^verbatim>\<open>resample(signal, oldFs, newFs)\<close>, lines 129-144, with every arithmetic result
  rounded as the engine rounds it; \<^verbatim>\<open>Math.ceil\<close> and \<^verbatim>\<open>Math.floor\<close> are exact.
  \<open>resample_low\<close> is the index \<^verbatim>\<open>low\<close> of iteration \<open>i\<close>, \<open>resample_at\<close> the value stored
  into \<^verbatim>\<open>output[i]\<close>. The loop runs while \<^verbatim>\<open>i < newLength\<close>, which is as often as the
  array is long.
\<close>

definition resample_ratio :: "num \<Rightarrow> num \<Rightarrow> num" where
  "resample_ratio oldFs newFs = fdiv oldFs newFs"

definition resample_newLength :: "num list \<Rightarrow> num \<Rightarrow> num" where
  "resample_newLength signal ratio = nceil (fdiv (Fin (real (length signal))) ratio)"

definition resample_low :: "num \<Rightarrow> nat \<Rightarrow> num" where
  "resample_low ratio i = nfloor (fmul (Fin (real i)) ratio)"

definition resample_at :: "num list \<Rightarrow> num \<Rightarrow> nat \<Rightarrow> num" where
  "resample_at signal ratio i =
     (let pos = fmul (Fin (real i)) ratio;
          low = resample_low ratio i;
          frac = fsub pos low
      in if nlt (fadd low (Fin 1)) (Fin (real (length signal)))
         then fadd (fmul (to_number (idx signal low)) (fsub (Fin 1) frac))
                   (fmul (to_number (idx signal (fadd low (Fin 1)))) frac)
         else to_number (idx signal low))"

definition resample :: "num list \<Rightarrow> num \<Rightarrow> num \<Rightarrow> error + num list" where
  "resample signal oldFs newFs =
     (let ratio = resample_ratio oldFs newFs
      in case typed_array_length (resample_newLength signal ratio) of
           Inl err \<Rightarrow> Inl err
         | Inr n \<Rightarrow> Inr (map (resample_at signal ratio) [0..<n]))"

text \<open>
  The ratio, the output length and the index \<^verbatim>\<open>low\<close> as they would be without rounding.
\<close>

definition resample_exact_ratio :: "num \<Rightarrow> num \<Rightarrow> num" where
  "resample_exact_ratio oldFs newFs = ndiv oldFs newFs"

definition resample_exact_newLength :: "num list \<Rightarrow> num \<Rightarrow> num" where
  "resample_exact_newLength signal ratio = nceil (ndiv (Fin (real (length signal))) ratio)"

definition resample_exact_low :: "num \<Rightarrow> nat \<Rightarrow> num" where
  "resample_exact_low ratio i = nfloor (nmul (Fin (real i)) ratio)"

text \<open>\<^verbatim>\<open>waveformCodingSynthesis(originalSignal, bitRateReductionFactor)\<close>, lines 273-278.\<close>

definition waveformCodingSynthesis :: "num list \<Rightarrow> num \<Rightarrow> error + num list" where
  "waveformCodingSynthesis originalSignal bitRateReductionFactor =
     (let numSamples = Fin (real (length originalSignal));
          reducedSamples = fdiv numSamples bitRateReductionFactor
      in case resample originalSignal numSamples reducedSamples of
           Inl err \<Rightarrow> Inl err
         | Inr downsampled \<Rightarrow> resample downsampled reducedSamples numSamples)"

section \<open>Pitch detector\<close>

text \<open>
  \<^verbatim>\<open>Math.max(...ac)\<close>: \<^verbatim>\<open>-Infinity\<close> for no arguments, \<^verbatim>\<open>NaN\<close> as soon as one
  argument is \<^verbatim>\<open>NaN\<close>.
\<close>

definition nmax :: "num \<Rightarrow> num \<Rightarrow> num" where
  "nmax a b = (if a = NaN \<or> b = NaN then NaN else if nlt a b then b else a)"

definition mathMax :: "num list \<Rightarrow> num" where
  "mathMax xs = foldl nmax NInf xs"

text \<open>\<^verbatim>\<open>ac.map(v => v / maxAuto)\<close>, line 239.\<close>

definition normalize :: "num list \<Rightarrow> num \<Rightarrow> num list" where
  "normalize ac maxAuto = map (\<lambda>v. ndiv v maxAuto) ac"

text \<open>
  The search loop of lines 244-249, \<^verbatim>\<open>for (let i = minLag + 1; i < maxLag; i++)\<close>, with
  the state \<open>(peakLag, maxVal)\<close>. The counter is a number like any other: the loop does
  not end when \<^verbatim>\<open>maxLag\<close> is \<^verbatim>\<open>Infinity\<close> or the counter starts at \<^verbatim>\<open>-Infinity\<close>, and
  not returning is the value \<open>None\<close>.
\<close>

partial_function (option) pitch_loop ::
  "num list \<Rightarrow> num \<Rightarrow> num \<Rightarrow> num \<times> num \<Rightarrow> (num \<times> num) option" where
  "pitch_loop normalized maxLag i s =
     (if nlt i maxLag
      then pitch_loop normalized maxLag (nadd i (Fin 1))
             (if ngt (to_number (idx normalized i)) (snd s)
              then (i, to_number (idx normalized i)) else s)
      else Some s)"

text \<open>\<^verbatim>\<open>pitchDetectionAutocorr(signal, fs, minFreq, maxFreq)\<close>, lines 235-252.\<close>

definition pitchDetectionAutocorr :: "num list \<Rightarrow> num \<Rightarrow> num \<Rightarrow> num \<Rightarrow> num option" where
  "pitchDetectionAutocorr signal fs minFreq maxFreq =
     (let ac = autocorr signal;
          maxAuto = mathMax ac
      in if maxAuto = Fin 0 then Some (Fin 0)
         else
           let normalized = normalize ac maxAuto;
               minLag = nfloor (ndiv fs maxFreq);
               maxLag = nfloor (ndiv fs minFreq)
           in case pitch_loop normalized maxLag (nadd minLag (Fin 1))
                     (minLag, to_number (idx normalized minLag)) of
                None \<Rightarrow> None
              | Some (peakLag, maxVal) \<Rightarrow>
                  if nlt maxVal (Fin (1 / 2)) then Some (Fin 0) else Some (ndiv fs peakLag))"

section \<open>Vector quantizer\<close>

text \<open>
  The squared distance of lines 171-174 and 211-214 over the first \<open>D\<close> coordinates, each
  subtraction, square and addition rounded as the engine rounds it; \<^verbatim>\<open>x ** 2\<close> is the
  rounded product \<open>x * x\<close>, also on the non-finite values.
\<close>

definition sqdist :: "nat \<Rightarrow> num list \<Rightarrow> num list \<Rightarrow> num" where
  "sqdist D x c =
     foldl (\<lambda>dist d. fadd dist (let t = fsub (rd x d) (rd c d) in fmul t t)) (Fin 0) [0..<D]"

text \<open>The squared Euclidean distance of two vectors of finite coordinates, without rounding.\<close>

definition sqdist_real :: "real list \<Rightarrow> real list \<Rightarrow> real" where
  "sqdist_real x c = (\<Sum>d<length x. (x ! d - c ! d)\<^sup>2)"

text \<open>
  The search over the codewords (lines 168-179 and 208-219) with the state
  \<open>(minDist, minIdx)\<close>, started at \<open>(Infinity, 0)\<close>; only a strictly smaller distance
  replaces the index.
\<close>

definition nearest :: "nat \<Rightarrow> num list list \<Rightarrow> num list \<Rightarrow> nat" where
  "nearest D codebook x =
     snd (foldl (\<lambda>s k. let dist = sqdist D x (codebook ! k)
                        in if nlt dist (fst s) then (dist, k) else s)
                (PInf, 0) [0..<length codebook])"

text \<open>\<^verbatim>\<open>vectorQuantization(codebook, features)\<close>, lines 205-223.\<close>

definition vectorQuantization :: "num list list \<Rightarrow> num list list \<Rightarrow> nat list" where
  "vectorQuantization codebook features = map (\<lambda>x. nearest (length x) codebook x) features"

text \<open>
  \<^verbatim>\<open>trainVqCodebook(features, codebookSize, maxIter, tol)\<close>, lines 156-203. The draws of
  \<^verbatim>\<open>Math.random()\<close> are a parameter \<open>rand\<close>: \<open>rand i\<close> is the value drawn for codeword
  \<open>i\<close>, a real in \<open>[0, 1)\<close>; the index \<^verbatim>\<open>Math.floor(Math.random() * N)\<close> is the floor
  of the product taken without rounding. The sums, the means and the distances round
  every operation.

  \<open>kmeans_assign\<close> is the loop over the feature vectors (lines 167-185): it counts the
  vectors of each codeword and adds them up in \<^verbatim>\<open>newCodebook\<close>, which starts as
  \<^verbatim>\<open>codebookSize\<close> rows of \<open>D\<close> zeros. With no codeword at all the row
  \<^verbatim>\<open>newCodebook[0]\<close> is \<^verbatim>\<open>undefined\<close> and indexing it throws.
\<close>

definition kmeans_add :: "nat \<Rightarrow> num list \<Rightarrow> num list \<Rightarrow> num list" where
  "kmeans_add D row x = foldl (\<lambda>r d. r[d := fadd (r ! d) (rd x d)]) row [0..<D]"

definition kmeans_assign ::
  "nat \<Rightarrow> num list list \<Rightarrow> num list list \<Rightarrow> nat list \<times> num list list" where
  "kmeans_assign D codebook features =
     foldl (\<lambda>s x. let minIdx = nearest D codebook x
                   in ((fst s)[minIdx := fst s ! minIdx + 1],
                       (snd s)[minIdx := kmeans_add D (snd s ! minIdx) x]))
           (replicate (length codebook) 0, replicate (length codebook) (replicate D (Fin 0)))
           features"

text \<open>
  The loop over the codewords (lines 186-199): a row with a positive count is divided by
  it, and every row, divided or not, is stored as the codeword. \<open>kmeans_moved\<close> is the
  test of line 197 for one codeword.
\<close>

definition kmeans_mean :: "nat \<Rightarrow> nat \<Rightarrow> num list \<Rightarrow> num list" where
  "kmeans_mean D count row =
     (if 0 < count then foldl (\<lambda>r d. r[d := fdiv (r ! d) (Fin (real count))]) row [0..<D]
      else row)"

definition kmeans_moved :: "nat \<Rightarrow> num \<Rightarrow> num list \<Rightarrow> num list \<Rightarrow> bool" where
  "kmeans_moved D tol new old = ngt (nround (nsqrt (sqdist D new old))) tol"

definition kmeans_iter ::
  "nat \<Rightarrow> num \<Rightarrow> num list list \<Rightarrow> num list list \<Rightarrow> error + (num list list \<times> bool)" where
  "kmeans_iter D tol features codebook =
     (if codebook = [] \<and> features \<noteq> [] \<and> 0 < D then Inl TypeError
      else
        let s = kmeans_assign D codebook features;
            newCodebook = map (\<lambda>k. kmeans_mean D (fst s ! k) (snd s ! k)) [0..<length codebook];
            changed = list_ex (\<lambda>k. kmeans_moved D tol (newCodebook ! k) (codebook ! k))
                              [0..<length codebook]
        in Inr (newCodebook, changed))"

text \<open>The iteration of lines 163-201: at most \<open>maxIter\<close> rounds, left early when no codeword moved.\<close>

fun kmeans_loop ::
  "nat \<Rightarrow> num \<Rightarrow> num list list \<Rightarrow> nat \<Rightarrow> num list list \<Rightarrow> error + num list list" where
  "kmeans_loop D tol features 0 codebook = Inr codebook"
| "kmeans_loop D tol features (Suc n) codebook =
     (case kmeans_iter D tol features codebook of
        Inl err \<Rightarrow> Inl err
      | Inr (newCodebook, changed) \<Rightarrow>
          if changed then kmeans_loop D tol features n newCodebook else Inr newCodebook)"

definition init_codebook :: "num list list \<Rightarrow> nat \<Rightarrow> (nat \<Rightarrow> real) \<Rightarrow> num list list" where
  "init_codebook features codebookSize rand =
     map (\<lambda>i. features ! nat \<lfloor>rand i * real (length features)\<rfloor>) [0..<codebookSize]"

definition trainVqCodebook ::
  "num list list \<Rightarrow> nat \<Rightarrow> nat \<Rightarrow> num \<Rightarrow> (nat \<Rightarrow> real) \<Rightarrow> error + num list list" where
  "trainVqCodebook features codebookSize maxIter tol rand =
     (if features = [] then Inl TypeError
      else kmeans_loop (length (features ! 0)) tol features maxIter
             (init_codebook features codebookSize rand))"

section \<open>Transform engine\<close>

text \<open>
  The class \<^verbatim>\<open>Complex\<close>, lines 8-30. The constructor stores \<^verbatim>\<open>re || 0\<close> and
  \<^verbatim>\<open>im || 0\<close>, which replaces \<^verbatim>\<open>NaN\<close> (and zero) by \<open>0\<close>.
\<close>

record Complex =
  re :: num
  im :: num

definition or_zero :: "num \<Rightarrow> num" where
  "or_zero x = (if x = NaN \<or> x = Fin 0 then Fin 0 else x)"

definition Complex_new :: "num \<Rightarrow> num \<Rightarrow> Complex" where
  "Complex_new r i = \<lparr>re = or_zero r, im = or_zero i\<rparr>"

definition Complex_add :: "Complex \<Rightarrow> Complex \<Rightarrow> Complex" where
  "Complex_add this other = Complex_new (nadd (re this) (re other)) (nadd (im this) (im other))"

definition Complex_sub :: "Complex \<Rightarrow> Complex \<Rightarrow> Complex" where
  "Complex_sub this other = Complex_new (nsub (re this) (re other)) (nsub (im this) (im other))"

definition Complex_mul :: "Complex \<Rightarrow> Complex \<Rightarrow> Complex" where
  "Complex_mul this other =
     (let r = nsub (nmul (re this) (re other)) (nmul (im this) (im other));
          i = nadd (nmul (re this) (im other)) (nmul (im this) (re other))
      in Complex_new r i)"

text \<open>\<^verbatim>\<open>Math.exp\<close>, \<^verbatim>\<open>Math.cos\<close> and \<^verbatim>\<open>Math.sin\<close>.\<close>

fun nexp :: "num \<Rightarrow> num" where
  "nexp (Fin x) = Fin (exp x)"
| "nexp PInf = PInf"
| "nexp NInf = Fin 0"
| "nexp NaN = NaN"

fun ncos :: "num \<Rightarrow> num" where
  "ncos (Fin x) = Fin (cos x)"
| "ncos a = NaN"

fun nsin :: "num \<Rightarrow> num" where
  "nsin (Fin x) = Fin (sin x)"
| "nsin a = NaN"

definition Complex_cexp :: "Complex \<Rightarrow> Complex" where
  "Complex_cexp this =
     (let er = nexp (re this)
      in Complex_new (nmul er (ncos (im this))) (nmul er (nsin (im this))))"

text \<open>
  \<^verbatim>\<open>cfft(amplitudes)\<close>, lines 33-56, on an array of \<^verbatim>\<open>Complex\<close> objects (the tests of
  lines 47 and 48 then never fire). \<^verbatim>\<open>new Array(hN)\<close> throws \<^verbatim>\<open>RangeError\<close> when
  \<open>N / 2\<close> is not an integer. \<open>cfft_combine\<close> is the loop of lines 46-54: iteration \<open>k\<close>
  writes the entries \<open>k\<close> and \<open>k + hN\<close>, so the array after the loop is the list of the
  sums followed by the list of the differences. Line 51 calls \<^verbatim>\<open>t.mul(oddFFT[k])\<close> and
  drops the product it returns; \<open>twiddle\<close> is \<open>t\<close> as lines 52 and 53 see it.

  The function overwrites its argument and returns it; the model returns the new
  contents.
\<close>

definition twiddle :: "nat \<Rightarrow> nat \<Rightarrow> Complex list \<Rightarrow> Complex" where
  "twiddle N k oddFFT =
     (let a = Fin (- 2 * pi);
          p = ndiv (Fin (real k)) (Fin (real N));
          t = Complex_cexp (Complex_new (Fin 0) (nmul a p));
          dropped = Complex_mul t (oddFFT ! k)
      in t)"

definition cfft_combine :: "nat \<Rightarrow> Complex list \<Rightarrow> Complex list \<Rightarrow> Complex list" where
  "cfft_combine N evenFFT oddFFT =
     map (\<lambda>k. Complex_add (evenFFT ! k) (twiddle N k oddFFT)) [0..<N div 2] @
     map (\<lambda>k. Complex_sub (evenFFT ! k) (twiddle N k oddFFT)) [0..<N div 2]"

function cfft :: "Complex list \<Rightarrow> error + Complex list" where
  "cfft amplitudes =
     (let N = length amplitudes
      in if N \<le> 1 then Inr amplitudes
         else if N mod 2 \<noteq> 0 then Inl RangeError
         else
           let hN = N div 2;
               even = map (\<lambda>i. amplitudes ! (i * 2)) [0..<hN];
               odd = map (\<lambda>i. amplitudes ! (i * 2 + 1)) [0..<hN]
           in case cfft even of
                Inl err \<Rightarrow> Inl err
              | Inr evenFFT \<Rightarrow>
                  (case cfft odd of
                     Inl err \<Rightarrow> Inl err
                   | Inr oddFFT \<Rightarrow> Inr (cfft_combine N evenFFT oddFFT)))"
  by pat_completeness auto
termination
  by (relation "measure length") auto

text \<open>
  \<^verbatim>\<open>icfft(amplitudes)\<close>, lines 59-72: the fields are assigned directly, not through
  the constructor.
\<close>

definition icfft :: "Complex list \<Rightarrow> error + Complex list" where
  "icfft amplitudes =
     (let N = length amplitudes;
          iN = ndiv (Fin 1) (Fin (real N));
          conjugated = map (\<lambda>c. c\<lparr>im := nneg (im c)\<rparr>) amplitudes
      in case cfft conjugated of
           Inl err \<Rightarrow> Inl err
         | Inr transformed \<Rightarrow>
             Inr (map (\<lambda>c. \<lparr>re = nmul (re c) iN, im = nmul (nneg (im c)) iN\<rparr>) transformed))"

declare cfft.simps [simp del]

section \<open>Properties of the number model\<close>

lemma nmul_nonfinite: "\<not> is_finite k \<Longrightarrow> \<not> is_finite (nmul k x)"
  by (cases k; cases x) (auto simp: inf_sign_def)

lemma nadd_nonfinite: "\<not> is_finite y \<Longrightarrow> \<not> is_finite (nadd x y)"
  by (cases x; cases y) auto

lemma ndiv_zero_nonfinite: "\<not> is_finite (ndiv s (Fin 0))"
  by (cases s) (auto simp: inf_sign_def)

lemma ndiv_NaN_right: "ndiv s NaN = NaN"
  by (cases s) auto

lemma nmul_zero_nonfinite: "\<not> is_finite k \<Longrightarrow> nmul (Fin 0) (nsub (Fin 1) (nmul k k)) = NaN"
  by (cases k) (auto simp: nsub_def)

section \<open>Arrays written in a loop\<close>

lemma length_fold_update: "length (foldl (\<lambda>a j. a[j := g a j]) a js) = length a"
  by (induction js arbitrary: a) auto

lemma fold_update_outside: "i \<notin> set js \<Longrightarrow> foldl (\<lambda>a j. a[j := g a j]) a js ! i = a ! i"
  by (induction js arbitrary: a) auto

lemma fold_update_all:
  assumes "\<And>b j. P (g b j)" and "i \<in> set js" and "i < length a"
  shows "P (foldl (\<lambda>a j. a[j := g a j]) a js ! i)"
  using assms(2,3)
proof (induction js arbitrary: a rule: rev_induct)
  case Nil
  then show ?case by simp
next
  case (snoc j js)
  show ?case
  proof (cases "i = j")
    case True
    then show ?thesis using snoc.prems assms(1) by (simp add: length_fold_update)
  next
    case False
    then have "i \<in> set js" using snoc.prems by simp
    then show ?thesis using False snoc.IH snoc.prems by simp
  qed
qed

section \<open>Levinson-Durbin: results\<close>

lemmas ld_defs = levinsonDurbin_def ld_energy_def ld_run_def ld_init_def ld_step_def ld_sum_def
  ld_update_def rd_def nsub_def Let_def

lemmas ref_defs = levinsonDurbin_reference_def ld_init_def ref_step_def ld_sum_def
  ref_update_def rd_def nsub_def Let_def

text \<open>
  Claim C2. The coefficient update of \<^verbatim>\<open>levinsonDurbin\<close> is meant to read the
  coefficients of the previous order, so that the result is the reference recursion.
  The loop of lines 101-103 updates in place in ascending \<open>j\<close>: for \<open>m = 3\<close> it writes
  \<open>a[1]\<close> and then reads the new \<open>a[1]\<close> to update \<open>a[2]\<close>. On the autocorrelation
  \<open>R = [1, 0, 1/2, 3/8]\<close> with order 3 the function returns \<open>a[2] = -5/8\<close> where the
  reference recursion gives \<open>-1/2\<close>.
\<close>

theorem levinsonDurbin_in_place_update_differs:
  "levinsonDurbin [Fin 1, Fin 0, Fin (1/2), Fin (3/8)] 3
     = [Fin 1, Fin (1/4), Fin (-5/8), Fin (-1/2)]
   \<and> levinsonDurbin_reference [Fin 1, Fin 0, Fin (1/2), Fin (3/8)] 3
     = [Fin 1, Fin (1/4), Fin (-1/2), Fin (-1/2)]"
  by (simp add: ld_defs ref_defs upt_rec eval_nat_numeral)

lemma ld_run_state: "ld_run R order = ld_state R order order"
  by (simp add: ld_run_def ld_state_def)

lemma ld_state_Suc: "ld_state R order (Suc n) = ld_step R (ld_state R order n) (Suc n)"
  by (simp add: ld_state_def)

lemma length_ld_update: "length (ld_update k m a) = length a"
  unfolding ld_update_def by (rule length_fold_update)

lemma ld_update_outside: "j = 0 \<or> m \<le> j \<Longrightarrow> ld_update k m a ! j = a ! j"
  unfolding ld_update_def by (rule fold_update_outside) auto

lemma ld_update_nonfinite:
  assumes "\<not> is_finite k" "1 \<le> j" "j < m" "j < length a"
  shows "\<not> is_finite (ld_update k m a ! j)"
  unfolding ld_update_def
  by (rule fold_update_all[where P="\<lambda>x. \<not> is_finite x"])
     (use assms in \<open>auto intro!: nadd_nonfinite nmul_nonfinite\<close>)

lemma length_ld_step:
  "length (fst (ld_step R s m)) = length (fst s) \<and> length (snd (ld_step R s m)) = length (snd s)"
  by (simp add: ld_step_def Let_def length_ld_update)

lemma length_ld_state:
  "length (fst (ld_state R order n)) = order + 1 \<and> length (snd (ld_state R order n)) = order + 1"
proof (induction n)
  case 0
  show ?case by (simp add: ld_state_def ld_init_def)
next
  case (Suc n)
  then show ?case by (simp add: ld_state_Suc length_ld_step)
qed

text \<open>
  A step whose reflection term \<open>k\<close> is not finite leaves no finite coefficient among
  \<open>a[1..m]\<close> and makes the energy \<open>e[m]\<close> \<^verbatim>\<open>NaN\<close> when \<open>e[m-1]\<close> is zero or \<^verbatim>\<open>NaN\<close>.
\<close>

lemma ld_step_nonfinite:
  assumes k: "\<not> is_finite (ndiv (nneg (ld_sum R (fst s) m)) (snd s ! (m - 1)))"
    and len: "length (fst s) = order + 1"
    and m: "m \<le> order"
    and j: "1 \<le> j" "j \<le> m"
  shows "\<not> is_finite (fst (ld_step R s m) ! j)"
proof (cases "j = m")
  case True
  then show ?thesis using k len m
    by (simp add: ld_step_def Let_def ld_update_outside)
next
  case False
  then have "j < m" using j by simp
  then show ?thesis using k len m j
    by (simp add: ld_step_def Let_def ld_update_nonfinite)
qed

lemma ld_step_energy:
  assumes "m < length (snd s)"
  shows "snd (ld_step R s m) ! m =
         nmul (snd s ! (m - 1))
              (nsub (Fin 1) (nmul (ndiv (nneg (ld_sum R (fst s) m)) (snd s ! (m - 1)))
                                  (ndiv (nneg (ld_sum R (fst s) m)) (snd s ! (m - 1)))))"
  using assms by (simp add: ld_step_def Let_def)

lemma broken_first:
  assumes "1 \<le> m" "m \<le> order" "snd (ld_state R order (m - 1)) ! (m - 1) = Fin 0"
  shows "broken m (ld_state R order m)"
proof -
  let ?s = "ld_state R order (m - 1)"
  let ?k = "ndiv (nneg (ld_sum R (fst ?s) m)) (snd ?s ! (m - 1))"
  have step: "ld_state R order m = ld_step R ?s m"
    using assms(1) ld_state_Suc[of R order "m - 1"] by simp
  have len: "length (fst ?s) = order + 1" "length (snd ?s) = order + 1"
    using length_ld_state[of R order "m - 1"] by simp_all
  have k: "\<not> is_finite ?k"
    using assms(3) by (simp add: ndiv_zero_nonfinite)
  have "\<not> is_finite (fst (ld_step R ?s m) ! j)" if "1 \<le> j" "j \<le> m" for j
    using ld_step_nonfinite[OF k len(1) assms(2) that] .
  moreover have "snd (ld_step R ?s m) ! m = NaN"
    using ld_step_energy[of m ?s R] len(2) assms(2,3) k
    by (simp add: nmul_zero_nonfinite)
  ultimately show ?thesis by (simp add: broken_def step)
qed

lemma broken_step:
  assumes "broken n (ld_state R order n)" "n < order"
  shows "broken (Suc n) (ld_state R order (Suc n))"
proof -
  let ?s = "ld_state R order n"
  let ?k = "ndiv (nneg (ld_sum R (fst ?s) (Suc n))) (snd ?s ! n)"
  have len: "length (fst ?s) = order + 1" "length (snd ?s) = order + 1"
    using length_ld_state[of R order n] by simp_all
  have e: "snd ?s ! n = NaN" using assms(1) by (simp add: broken_def)
  then have kN: "?k = NaN" by (simp add: ndiv_NaN_right)
  then have k: "\<not> is_finite (ndiv (nneg (ld_sum R (fst ?s) (Suc n))) (snd ?s ! (Suc n - 1)))"
    by simp
  have le: "Suc n \<le> order" using assms(2) by simp
  have "\<not> is_finite (fst (ld_step R ?s (Suc n)) ! j)" if "1 \<le> j" "j \<le> Suc n" for j
    using ld_step_nonfinite[OF k len(1) le that] .
  moreover have "snd (ld_step R ?s (Suc n)) ! Suc n = NaN"
    using ld_step_energy[of "Suc n" ?s R] len(2) assms(2) e by simp
  ultimately show ?thesis by (simp add: broken_def ld_state_Suc)
qed

lemma broken_later:
  assumes "broken m (ld_state R order m)" "m \<le> n" "n \<le> order"
  shows "broken n (ld_state R order n)"
  using assms(2,3)
proof (induction n rule: dec_induct)
  case base
  show ?case by (rule assms(1))
next
  case (step k)
  then show ?case using broken_step[of k R order] by simp
qed

text \<open>
  Claim C4, as the code has it. \<^verbatim>\<open>levinsonDurbin\<close> has no failure of its own: for
  every \<open>R\<close> and order it returns a coefficient vector of length \<open>order + 1\<close>. When the
  energy \<open>e[m-1]\<close> it divides by at a step \<open>m \<le> order\<close> is zero, the division yields
  \<^verbatim>\<open>NaN\<close> or an infinity, and none of the returned coefficients \<open>a[1..order]\<close> is
  finite.
\<close>

theorem levinsonDurbin_zero_energy_not_reported:
  "length (levinsonDurbin R order) = order + 1 \<and>
   (\<forall>m. 1 \<le> m \<and> m \<le> order \<and> snd (ld_state R order (m - 1)) ! (m - 1) = Fin 0 \<longrightarrow>
      (\<forall>j. 1 \<le> j \<and> j \<le> order \<longrightarrow> \<not> is_finite (levinsonDurbin R order ! j)))"
proof (intro conjI allI impI)
  show "length (levinsonDurbin R order) = order + 1"
    using length_ld_state[of R order order] by (simp add: levinsonDurbin_def ld_run_state)
next
  fix m j
  assume m: "1 \<le> m \<and> m \<le> order \<and> snd (ld_state R order (m - 1)) ! (m - 1) = Fin 0"
    and j: "1 \<le> j \<and> j \<le> order"
  have "broken m (ld_state R order m)"
    using m broken_first by blast
  then have "broken order (ld_state R order order)"
    using m broken_later by blast
  then show "\<not> is_finite (levinsonDurbin R order ! j)"
    using j by (simp add: broken_def levinsonDurbin_def ld_run_state)
qed

theorem levinsonDurbin_zero_energy_not_reported_witness:
  "snd (ld_state [Fin 0, Fin 1] 1 0) ! 0 = Fin 0 \<and>
   length (levinsonDurbin [Fin 0, Fin 1] 1) = 2 \<and>
   \<not> is_finite (levinsonDurbin [Fin 0, Fin 1] 1 ! 1)"
proof -
  have e: "snd (ld_state [Fin 0, Fin 1] 1 0) ! 0 = Fin 0"
    by (simp add: ld_state_def ld_init_def rd_def)
  have "(1::nat) \<le> 1 \<and> (1::nat) \<le> 1 \<and> snd (ld_state [Fin 0, Fin 1] 1 (1 - 1)) ! (1 - 1) = Fin 0"
    using e by simp
  then show ?thesis
    using e levinsonDurbin_zero_energy_not_reported[of "[Fin 0, Fin 1]" 1] by auto
qed

text \<open>
  Claim C4 as stated fails: with \<open>R = [0, 1]\<close> and order 1 the energy \<open>e[0]\<close> is zero at the first step; the call
  returns \<open>[1, -Infinity]\<close>.
\<close>

theorem levinsonDurbin_zero_energy_counterexample:
  "levinsonDurbin [Fin 0, Fin 1] 1 = [Fin 1, NInf]"
  by (simp add: ld_defs inf_sign_def)

lemma toeplitz_form_example:
  "toeplitz_form [1, 0, 1/2, 3/8, -97/256] 4 v =
     (v 0 + 1/2 * v 2 + 3/8 * v 3 - 97/256 * v 4)\<^sup>2
   + (v 1 + 1/2 * v 3 + 3/8 * v 4)\<^sup>2
   + 3/4 * (v 2 - 1/4 * v 3 + 353/384 * v 4)\<^sup>2
   + 9/16 * (v 3 + 65/288 * v 4)\<^sup>2
   + 1967/36864 * (v 4)\<^sup>2"
  by (simp add: toeplitz_form_def eval_nat_numeral power2_eq_square algebra_simps)

lemma toeplitz_psd_example: "toeplitz_psd [1, 0, 1/2, 3/8, -97/256] 4"
  unfolding toeplitz_psd_def toeplitz_form_example
  by (intro allI add_nonneg_nonneg mult_nonneg_nonneg) simp_all

text \<open>
  Claim C7. For a positive semidefinite autocorrelation the error energies are meant to
  be non-negative and non-increasing. The vector \<open>r = [1, 0, 1/2, 3/8, -97/256]\<close> is
  positive definite (its quadratic form is a sum of squares), no energy before the last
  is zero, and the energies \<^verbatim>\<open>levinsonDurbin\<close> computes for order 4 end in
  \<open>e[4] = -297/4096\<close>: the coefficients left by the in-place update of step 3 give the
  reflection term \<open>17/16\<close> at step 4.
\<close>

theorem levinsonDurbin_energy_negative_on_psd_input:
  "toeplitz_psd [1, 0, 1/2, 3/8, -97/256] 4 \<and>
   ld_energy (map Fin [1, 0, 1/2, 3/8, -97/256]) 4
     = [Fin 1, Fin 1, Fin (3/4), Fin (9/16), Fin (-297/4096)]"
  using toeplitz_psd_example by (simp add: ld_defs upt_rec eval_nat_numeral)

section \<open>Transform engine: results\<close>

lemmas fft_defs = cfft_combine_def twiddle_def Complex_add_def Complex_sub_def Complex_mul_def
  Complex_cexp_def Complex_new_def or_zero_def nsub_def Let_def

text \<open>
  Claim C1. The inverse transform of the forward transform is meant to give the
  sequence back. Line 51 of \<^verbatim>\<open>cfft\<close> computes the product of the twiddle factor and
  the odd half and drops it, so the output depends on the even half alone. For
  \<open>x = [0, 5]\<close> the forward transform is \<open>[1, -1]\<close> and the inverse transform of that is
  \<open>[1, 0]\<close>.
\<close>

theorem icfft_cfft_not_identity:
  "cfft [\<lparr>re = Fin 0, im = Fin 0\<rparr>, \<lparr>re = Fin 5, im = Fin 0\<rparr>]
     = Inr [\<lparr>re = Fin 1, im = Fin 0\<rparr>, \<lparr>re = Fin (-1), im = Fin 0\<rparr>]
   \<and> icfft [\<lparr>re = Fin 1, im = Fin 0\<rparr>, \<lparr>re = Fin (-1), im = Fin 0\<rparr>]
     = Inr [\<lparr>re = Fin 1, im = Fin 0\<rparr>, \<lparr>re = Fin 0, im = Fin 0\<rparr>]"
  by (simp add: icfft_def cfft.simps fft_defs)

section \<open>Resampler: results\<close>

lemma floor_log2:
  assumes "2 ^ e \<le> x" "x < 2 ^ Suc e"
  shows "\<lfloor>log 2 x\<rfloor> = int e"
proof -
  have pos: "0 < x" using assms(1) by (rule less_le_trans[rotated]) simp
  have lo: "(2::real) powr real_of_int (int e) = 2 ^ e"
    by (simp add: powr_realpow)
  have "real_of_int (int e + 1) = real (Suc e)" by simp
  then have hi: "(2::real) powr real_of_int (int e + 1) = 2 ^ Suc e"
    by (simp only: powr_realpow zero_less_numeral)
  have "(2::real) powr real_of_int (int e) \<le> x \<and> x < 2 powr real_of_int (int e + 1)"
    unfolding lo hi using assms by simp
  then show ?thesis
    using floor_log_eq_powr_iff[of x 2 "int e"] pos by simp
qed

lemma fl_binade:
  assumes "2 ^ e \<le> x" "x < 2 ^ Suc e" "e \<le> 52"
  shows "fl x = of_int (round_even (x * 2 ^ (52 - e))) / 2 ^ (52 - e)"
proof -
  have pos: "0 < x" using assms(1) by (rule less_le_trans[rotated]) simp
  have "of_int \<lfloor>log 2 \<bar>x\<bar>\<rfloor> - 52 = - real (52 - e)"
    using floor_log2[OF assms(1,2)] pos assms(3) by simp
  then have "(2::real) powr (of_int \<lfloor>log 2 \<bar>x\<bar>\<rfloor> - 52) = 2 powr (- real (52 - e))"
    by simp
  also have "\<dots> = 1 / 2 ^ (52 - e)"
    by (simp add: powr_minus_divide powr_realpow)
  finally have u: "(2::real) powr (of_int \<lfloor>log 2 \<bar>x\<bar>\<rfloor> - 52) = 1 / 2 ^ (52 - e)" .
  show ?thesis using pos unfolding fl_def Let_def u by simp
qed

lemma round_even_of_int: "round_even (of_int k) = k"
  by (simp add: round_even_def Let_def)

lemma fl_half:
  assumes "x \<noteq> 0"
  shows "fl (x / 2) = fl x / 2"
proof -
  have "log 2 \<bar>x / 2\<bar> = log 2 \<bar>x\<bar> - 1"
    using assms by (simp add: log_divide)
  then have e: "real_of_int \<lfloor>log 2 \<bar>x / 2\<bar>\<rfloor> - 52 = (real_of_int \<lfloor>log 2 \<bar>x\<bar>\<rfloor> - 52) - 1"
    by simp
  have u: "(2::real) powr (real_of_int \<lfloor>log 2 \<bar>x / 2\<bar>\<rfloor> - 52)
           = 2 powr (real_of_int \<lfloor>log 2 \<bar>x\<bar>\<rfloor> - 52) / 2"
    unfolding e by (simp add: powr_diff)
  show ?thesis
    using assms unfolding fl_def Let_def u by simp
qed

lemma fl_nat:
  assumes "n < 2 ^ 53"
  shows "fl (real n) = real n"
proof (cases "n = 0")
  case True
  then show ?thesis by (simp add: fl_def)
next
  case False
  then obtain e where e: "2 ^ e \<le> n" "n < 2 ^ (e + 1)"
    using ex_power_ivl1[of 2 n] by auto
  have "(2::nat) ^ e < 2 ^ 53" using e(1) assms by (rule le_less_trans)
  then have "e < 53" by (rule power_less_imp_less_exp[rotated]) simp
  then have e52: "e \<le> 52" by simp
  have lo: "(2::real) ^ e \<le> real n"
    using e(1) by (metis of_nat_le_iff of_nat_numeral of_nat_power)
  have hi: "real n < 2 ^ Suc e"
    using e(2) by (metis Suc_eq_plus1 of_nat_less_iff of_nat_numeral of_nat_power)
  have "real n * 2 ^ (52 - e) = of_int (int (n * 2 ^ (52 - e)))" by simp
  then have "round_even (real n * 2 ^ (52 - e)) = int (n * 2 ^ (52 - e))"
    by (simp only: round_even_of_int)
  then show ?thesis
    using fl_binade[OF lo hi e52] by simp
qed

lemma fl_half_nat:
  assumes "n < 2 ^ 53"
  shows "fl (real n / 2) = real n / 2"
proof (cases "n = 0")
  case True
  then show ?thesis by (simp add: fl_def)
next
  case False
  then have "real n \<noteq> 0" by simp
  then have "fl (real n / 2) = fl (real n) / 2" by (rule fl_half)
  then show ?thesis by (simp only: fl_nat[OF assms])
qed

lemma fl_2: "fl 2 = 2"
  using fl_nat[of 2] by simp

lemma fl_one_half: "fl (1 / 2) = 1 / 2"
  using fl_half_nat[of 1] by simp

lemma fl_0: "fl 0 = 0"
  by (simp add: fl_def)

lemma fl_1: "fl 1 = 1"
  using fl_nat[of 1] by simp

lemma ceiling_half: "\<lceil>real n / 2\<rceil> = int ((n + 1) div 2)"
proof -
  have "real n / 2 = of_int (int n) / of_int 2" by simp
  then have "\<lceil>real n / 2\<rceil> = - ((- int n) div 2)"
    by (metis ceiling_divide_eq_div of_int_numeral)
  then show ?thesis by linarith
qed

lemma fdiv_half:
  assumes "f \<noteq> 0" "fl f = f"
  shows "fdiv (Fin f) (Fin 2) = Fin (f / 2)"
  using assms fl_half[of f] by (simp add: fdiv_def)

lemma resample_halve:
  assumes "f \<noteq> 0" "length x < 2 ^ 53"
  shows "resample x (Fin f) (Fin (f / 2)) =
         Inr (map (resample_at x (Fin 2)) [0..<(length x + 1) div 2])"
proof -
  have ratio: "resample_ratio (Fin f) (Fin (f / 2)) = Fin 2"
    using assms(1) by (simp add: resample_ratio_def fdiv_def fl_2)
  have "resample_newLength x (Fin 2) = Fin (of_int \<lceil>real (length x) / 2\<rceil>)"
    by (simp add: resample_newLength_def fdiv_def fl_half_nat[OF assms(2)])
  then have "typed_array_length (resample_newLength x (Fin 2)) = Inr ((length x + 1) div 2)"
    by (simp add: ceiling_half Let_def)
  then show ?thesis by (simp add: resample_def ratio Let_def)
qed

lemma resample_double:
  assumes "f \<noteq> 0" "2 * length y < 2 ^ 53"
  shows "resample y (Fin (f / 2)) (Fin f) =
         Inr (map (resample_at y (Fin (1 / 2))) [0..<2 * length y])"
proof -
  have ratio: "resample_ratio (Fin (f / 2)) (Fin f) = Fin (1 / 2)"
    using assms(1) by (simp add: resample_ratio_def fdiv_def fl_one_half)
  have "real (length y) / (1 / 2) = real (2 * length y)" by simp
  then have "fl (real (length y) / (1 / 2)) = real (2 * length y)"
    by (simp only: fl_nat[OF assms(2)])
  then have "resample_newLength y (Fin (1 / 2)) = Fin (real (2 * length y))"
    by (simp add: resample_newLength_def fdiv_def)
  then have "typed_array_length (resample_newLength y (Fin (1 / 2))) = Inr (2 * length y)"
    by (simp only: typed_array_length.simps Let_def of_nat_0_le_iff if_True floor_of_nat nat_int)
       simp
  then show ?thesis by (simp add: resample_def ratio Let_def)
qed

text \<open>
  Claim C5, as the code has it. For a finite nonzero double \<open>fs\<close> and a signal \<open>x\<close> of
  fewer than \<open>2^52\<close> samples the round trip
  \<^verbatim>\<open>resample(resample(x, fs, fs/2), fs/2, fs)\<close> succeeds and its length is twice the
  length of \<open>x\<close> halved and rounded up: the length of \<open>x\<close> exactly when that is even,
  one more when it is odd. The same holds for \<^verbatim>\<open>waveformCodingSynthesis\<close> with factor
  2 on a non-empty signal, which is this round trip with the sample count as the rate.
\<close>

theorem resample_round_trip_length:
  "(f \<noteq> 0 \<and> fl f = f \<and> length x < 2 ^ 52 \<longrightarrow>
     (\<exists>down up. resample x (Fin f) (fdiv (Fin f) (Fin 2)) = Inr down \<and>
                 resample down (fdiv (Fin f) (Fin 2)) (Fin f) = Inr up \<and>
                 length up = 2 * ((length x + 1) div 2) \<and>
                 (length up = length x \<longleftrightarrow> even (length x)))) \<and>
   (x \<noteq> [] \<and> length x < 2 ^ 52 \<longrightarrow>
     (\<exists>up. waveformCodingSynthesis x (Fin 2) = Inr up \<and>
            length up = 2 * ((length x + 1) div 2)))"
proof -
  let ?down = "map (resample_at x (Fin 2)) [0..<(length x + 1) div 2]"
  let ?up = "map (resample_at ?down (Fin (1 / 2))) [0..<2 * length ?down]"
  have trip: "resample x (Fin f) (Fin (f / 2)) = Inr ?down \<and>
              resample ?down (Fin (f / 2)) (Fin f) = Inr ?up"
    if f: "f \<noteq> 0" and n: "length x < 2 ^ 52" for f
  proof -
    have "length x < 2 ^ 53" using n by simp
    then have 1: "resample x (Fin f) (Fin (f / 2)) = Inr ?down"
      using f by (intro resample_halve)
    have "2 * length ?down \<le> length x + 1" by simp
    then have "2 * length ?down < 2 ^ 53" using n by simp
    then have 2: "resample ?down (Fin (f / 2)) (Fin f) = Inr ?up"
      using f by (intro resample_double)
    show ?thesis using 1 2 by simp
  qed
  have 3: "length ?up = 2 * ((length x + 1) div 2)" by simp
  have 4: "length ?up = length x \<longleftrightarrow> even (length x)"
    unfolding 3 by presburger
  have A: "\<exists>down up. resample x (Fin f) (fdiv (Fin f) (Fin 2)) = Inr down \<and>
                 resample down (fdiv (Fin f) (Fin 2)) (Fin f) = Inr up \<and>
                 length up = 2 * ((length x + 1) div 2) \<and>
                 (length up = length x \<longleftrightarrow> even (length x))"
    if "f \<noteq> 0 \<and> fl f = f \<and> length x < 2 ^ 52"
  proof -
    have h: "fdiv (Fin f) (Fin 2) = Fin (f / 2)" using that by (intro fdiv_half) simp_all
    show ?thesis unfolding h using trip[of f] that 3 4 by blast
  qed
  have B: "\<exists>up. waveformCodingSynthesis x (Fin 2) = Inr up \<and>
            length up = 2 * ((length x + 1) div 2)"
    if "x \<noteq> [] \<and> length x < 2 ^ 52"
  proof -
    let ?n = "real (length x)"
    have n0: "?n \<noteq> 0" using that by simp
    have "length x < 2 ^ 53" using that by simp
    then have "fl ?n = ?n" by (rule fl_nat)
    then have h: "fdiv (Fin ?n) (Fin 2) = Fin (?n / 2)" using n0 by (intro fdiv_half)
    have "waveformCodingSynthesis x (Fin 2) = Inr ?up"
      unfolding waveformCodingSynthesis_def Let_def h using trip[OF n0] that by simp
    then show ?thesis using 3 by blast
  qed
  show ?thesis using A B by blast
qed

theorem resample_round_trip_length_witness:
  "(2::real) \<noteq> 0 \<and> fl 2 = 2 \<and> length [Fin 1, Fin 3] < 2 ^ 52 \<and> [Fin 1, Fin 3] \<noteq> [] \<and>
   (\<exists>down up. resample [Fin 1, Fin 3] (Fin 2) (fdiv (Fin 2) (Fin 2)) = Inr down \<and>
               resample down (fdiv (Fin 2) (Fin 2)) (Fin 2) = Inr up \<and>
               length up = 2) \<and>
   (\<exists>up. waveformCodingSynthesis [Fin 1, Fin 3] (Fin 2) = Inr up \<and> length up = 2)"
proof -
  have h: "(2::real) \<noteq> 0 \<and> fl 2 = 2 \<and> length [Fin 1, Fin 3] < 2 ^ 52" "[Fin 1, Fin 3] \<noteq> []"
    by (simp_all add: fl_2)
  note t = resample_round_trip_length[of 2 "[Fin 1, Fin 3]"]
  from t[THEN conjunct1, rule_format, OF h(1)]
  have a: "\<exists>down up. resample [Fin 1, Fin 3] (Fin 2) (fdiv (Fin 2) (Fin 2)) = Inr down \<and>
               resample down (fdiv (Fin 2) (Fin 2)) (Fin 2) = Inr up \<and> length up = 2"
    by simp blast
  from t[THEN conjunct2] h
  have b: "\<exists>up. waveformCodingSynthesis [Fin 1, Fin 3] (Fin 2) = Inr up \<and> length up = 2"
    by simp
  show ?thesis using h a b by blast
qed

text \<open>
  Claim C5 as stated fails: a signal of one sample comes back with two: halving gives
  \<open>\<lceil>1/2\<rceil> = 1\<close> sample and doubling that gives \<open>2\<close>.
\<close>

theorem resample_round_trip_counterexample:
  "resample [Fin 1] (Fin 2) (fdiv (Fin 2) (Fin 2)) = Inr [Fin 1] \<and>
   resample [Fin 1] (fdiv (Fin 2) (Fin 2)) (Fin 2) = Inr [Fin 1, Fin 1] \<and>
   length [Fin 1, Fin 1] \<noteq> length [Fin 1]"
  by (simp add: resample_def resample_ratio_def resample_newLength_def resample_at_def
      resample_low_def fdiv_def fmul_def fadd_def fsub_def nsub_def fl_0 fl_1 fl_2 fl_one_half
      Let_def upt_rec)

lemma resample_index_in_range:
  assumes r: "0 < r" and i: "i < nat \<lceil>real n / r\<rceil>"
  shows "0 \<le> \<lfloor>real i * r\<rfloor> \<and> nat \<lfloor>real i * r\<rfloor> < n"
proof -
  have "int i < \<lceil>real n / r\<rceil>" using i by linarith
  then have "real i < real n / r" by (simp add: less_ceiling_iff)
  then have lt: "real i * r < real n" using r by (simp add: pos_less_divide_eq)
  have nonneg: "0 \<le> real i * r" using r by simp
  then have f0: "0 \<le> \<lfloor>real i * r\<rfloor>" by simp
  have "\<lfloor>real i * r\<rfloor> < int n" using lt by (simp add: floor_less_iff)
  then show ?thesis using f0 by linarith
qed

lemma idx_nat: "l < length xs \<Longrightarrow> idx xs (Fin (real l)) = Some (xs ! l)"
  by simp

lemma resample_exact_reads_ratio:
  assumes "signal \<noteq> []" "0 < r"
  shows "\<exists>n. typed_array_length (resample_exact_newLength signal (Fin r)) = Inr n \<and>
      0 < n \<and>
      (\<forall>i<n. \<exists>l<length signal.
          resample_exact_low (Fin r) i = Fin (real l) \<and>
          idx signal (resample_exact_low (Fin r) i) = Some (signal ! l) \<and>
          (nlt (nadd (resample_exact_low (Fin r) i) (Fin 1)) (Fin (real (length signal)))
             \<longrightarrow> idx signal (nadd (resample_exact_low (Fin r) i) (Fin 1)) = Some (signal ! (l + 1))))"
proof -
  let ?n = "nat \<lceil>real (length signal) / r\<rceil>"
  have pos: "0 < real (length signal) / r" using assms by simp
  then have c: "0 < \<lceil>real (length signal) / r\<rceil>" by (simp add: less_ceiling_iff)
  have len: "typed_array_length (resample_exact_newLength signal (Fin r)) = Inr ?n"
    using c assms(2) by (simp add: resample_exact_newLength_def Let_def)
  have "\<exists>l<length signal. resample_exact_low (Fin r) i = Fin (real l) \<and>
          idx signal (resample_exact_low (Fin r) i) = Some (signal ! l) \<and>
          (nlt (nadd (resample_exact_low (Fin r) i) (Fin 1)) (Fin (real (length signal)))
             \<longrightarrow> idx signal (nadd (resample_exact_low (Fin r) i) (Fin 1)) = Some (signal ! (l + 1)))"
    if "i < ?n" for i
  proof -
    let ?l = "nat \<lfloor>real i * r\<rfloor>"
    have rng: "0 \<le> \<lfloor>real i * r\<rfloor> \<and> ?l < length signal"
      using resample_index_in_range[OF assms(2) that] .
    have low: "resample_exact_low (Fin r) i = Fin (real ?l)"
      using rng by (simp add: resample_exact_low_def)
    have rd1: "idx signal (Fin (real ?l)) = Some (signal ! ?l)"
      using rng by (intro idx_nat) simp
    have rd2: "idx signal (Fin (real ?l + 1)) = Some (signal ! (?l + 1))"
      if "real ?l + 1 < real (length signal)"
    proof -
      have "?l + 1 < length signal" using that by linarith
      then have "idx signal (Fin (real (?l + 1))) = Some (signal ! (?l + 1))"
        by (rule idx_nat)
      then show ?thesis by (simp add: add.commute)
    qed
    show ?thesis
      unfolding low using rng rd1 rd2 by (intro exI[of _ ?l]) simp
  qed
  then show ?thesis using len c by (intro exI[of _ ?n]) simp
qed

text \<open>
  In exact arithmetic every read of \<^verbatim>\<open>resample\<close> is within bounds: for a non-empty
  signal and positive finite rates the output array has a positive length \<open>n\<close>, and in
  every iteration \<open>i < n\<close> the index \<^verbatim>\<open>low\<close> is a natural number below the length of the
  signal; whenever the test \<^verbatim>\<open>low + 1 < signal.length\<close> of line 137 holds,
  \<^verbatim>\<open>signal[low + 1]\<close> is a sample as well.
\<close>

lemma resample_reads_in_bounds_exact:
  assumes "signal \<noteq> []" "0 < oldFs" "0 < newFs"
  shows "\<exists>n. typed_array_length (resample_exact_newLength signal (resample_exact_ratio (Fin oldFs) (Fin newFs))) = Inr n \<and>
      0 < n \<and>
      (\<forall>i<n. \<exists>l<length signal.
          resample_exact_low (resample_exact_ratio (Fin oldFs) (Fin newFs)) i = Fin (real l) \<and>
          idx signal (resample_exact_low (resample_exact_ratio (Fin oldFs) (Fin newFs)) i) = Some (signal ! l) \<and>
          (nlt (nadd (resample_exact_low (resample_exact_ratio (Fin oldFs) (Fin newFs)) i) (Fin 1)) (Fin (real (length signal)))
             \<longrightarrow> idx signal (nadd (resample_exact_low (resample_exact_ratio (Fin oldFs) (Fin newFs)) i) (Fin 1)) = Some (signal ! (l + 1))))"
proof -
  have r: "0 < oldFs / newFs" using assms by simp
  have ratio: "resample_exact_ratio (Fin oldFs) (Fin newFs) = Fin (oldFs / newFs)"
    using assms by (simp add: resample_exact_ratio_def)
  show ?thesis unfolding ratio by (rule resample_exact_reads_ratio[OF assms(1) r])
qed

text \<open>
  The roundings of the run below: \<open>7/5\<close>, then \<open>21\<close> divided by that double
  (\<open>47287796087390208 / 3152519739159347\<close> as a fraction), then \<open>15\<close> times that double
  (\<open>47287796087390205 / 2251799813685248\<close>).
\<close>

lemma ratio_7_5: "fl (7 / 5) = 3152519739159347 / 2251799813685248"
  using fl_binade[of 0 "7 / 5"] by (simp add: round_even_def Let_def)

lemma length_7_5: "fl (47287796087390208 / 3152519739159347) = 8444249301319681 / 562949953421312"
  using fl_binade[of 3 "47287796087390208 / 3152519739159347"]
  by (simp add: round_even_def Let_def)

lemma pos_7_5: "fl (47287796087390205 / 2251799813685248) = 21"
  using fl_binade[of 4 "47287796087390205 / 2251799813685248"]
  by (simp add: round_even_def Let_def)

lemma fl_22: "fl 22 = 22"
  using fl_binade[of 4 22] by (simp add: round_even_def Let_def)

text \<open>
  Claim C10. Every index \<^verbatim>\<open>resample\<close> reads is meant to lie within the signal. With the
  rounding of doubles it does not: for a signal of 21 samples, \<open>oldFs = 7\<close> and
  \<open>newFs = 5\<close> the ratio is the double next to \<open>1.4\<close>, which lies below \<open>1.4\<close>; \<open>21\<close>
  divided by it rounds to the double above \<open>15\<close>, so the output has \<open>16\<close> entries; and in
  the last iteration \<open>15\<close> times the ratio rounds to \<open>21\<close> exactly. \<^verbatim>\<open>low\<close> is then \<open>21\<close>,
  the test of line 137 fails, line 140 reads \<^verbatim>\<open>signal[21]\<close>, which is \<^verbatim>\<open>undefined\<close>, and
  the last output sample is \<^verbatim>\<open>NaN\<close>.
\<close>

theorem resample_reads_past_end:
  "length signal = 21 \<longrightarrow>
     (\<exists>out. resample signal (Fin 7) (Fin 5) = Inr out \<and> length out = 16 \<and>
            resample_low (resample_ratio (Fin 7) (Fin 5)) 15 = Fin 21 \<and>
            idx signal (resample_low (resample_ratio (Fin 7) (Fin 5)) 15) = None \<and>
            out ! 15 = NaN)"
proof
  assume len: "length signal = 21"
  let ?r = "Fin (3152519739159347 / 2251799813685248)"
  have ratio: "resample_ratio (Fin 7) (Fin 5) = ?r"
    by (simp add: resample_ratio_def fdiv_def ratio_7_5)
  have n: "typed_array_length (resample_newLength signal ?r) = Inr 16"
    by (simp add: resample_newLength_def fdiv_def len length_7_5 Let_def)
  have low: "resample_low ?r 15 = Fin 21"
    by (simp add: resample_low_def fmul_def pos_7_5)
  have none: "idx signal (Fin 21) = None"
    using len by simp
  have at: "resample_at signal ?r 15 = NaN"
    by (simp add: resample_at_def low fadd_def fmul_def fsub_def nsub_def fl_22 pos_7_5 none len Let_def
          del: idx.simps)
  have out: "resample signal (Fin 7) (Fin 5) = Inr (map (resample_at signal ?r) [0..<16])"
    by (simp add: resample_def ratio n Let_def)
  have "map (resample_at signal ?r) [0..<16] ! 15 = NaN"
    using at by (simp del: upt.simps)
  then show "\<exists>out. resample signal (Fin 7) (Fin 5) = Inr out \<and> length out = 16 \<and>
            resample_low (resample_ratio (Fin 7) (Fin 5)) 15 = Fin 21 \<and>
            idx signal (resample_low (resample_ratio (Fin 7) (Fin 5)) 15) = None \<and>
            out ! 15 = NaN"
    unfolding ratio low using out none by (intro exI[of _ "map (resample_at signal ?r) [0..<16]"]) (simp del: idx.simps upt.simps)
qed

theorem resample_reads_past_end_witness:
  "length (replicate 21 (Fin 1)) = 21 \<and>
   (\<exists>out. resample (replicate 21 (Fin 1)) (Fin 7) (Fin 5) = Inr out \<and> length out = 16 \<and>
          out ! 15 = NaN)"
  using resample_reads_past_end[of "replicate 21 (Fin 1)"] by simp blast

section \<open>Autocorrelation and pitch detector: results\<close>

lemma foldl_nadd_finite:
  assumes "\<And>i. i < m \<Longrightarrow> f i = Fin (g i)"
  shows "foldl (\<lambda>s i. nadd s (f i)) (Fin a) [0..<m] = Fin (a + (\<Sum>i<m. g i))"
  using assms by (induction m) simp_all

lemma autocorr_finite:
  "autocorr (map Fin xs) = map (\<lambda>lag. Fin (ac_real xs lag)) [0..<length xs]"
proof -
  have "foldl (\<lambda>s i. nadd s (nmul (map Fin xs ! i) (map Fin xs ! (i + lag)))) (Fin 0)
          [0..<length xs - lag] = Fin (ac_real xs lag)" if "lag < length xs" for lag
  proof -
    have "nmul (map Fin xs ! i) (map Fin xs ! (i + lag)) = Fin (xs ! i * xs ! (i + lag))"
      if "i < length xs - lag" for i
      using that by simp
    from foldl_nadd_finite[of "length xs - lag" _ "\<lambda>i. xs ! i * xs ! (i + lag)" 0, OF this]
    show ?thesis by (simp add: ac_real_def)
  qed
  then show ?thesis by (simp add: autocorr_def Let_def)
qed

lemma ac_real_zero: "ac_real xs 0 = (\<Sum>i<length xs. (xs ! i)\<^sup>2)"
  by (simp add: ac_real_def power2_eq_square)

lemma ac_real_zero_nonneg: "0 \<le> ac_real xs 0"
  unfolding ac_real_zero by (rule sum_nonneg) simp

lemma abs_mult_le_squares: "\<bar>x * y\<bar> \<le> (x\<^sup>2 + y\<^sup>2) / (2::real)"
proof -
  have "0 \<le> (\<bar>x\<bar> - \<bar>y\<bar>)\<^sup>2" by simp
  then have "2 * (\<bar>x\<bar> * \<bar>y\<bar>) \<le> x\<^sup>2 + y\<^sup>2"
    by (simp add: power2_diff)
  then show ?thesis by (simp add: abs_mult)
qed

lemma ac_real_bound: "\<bar>ac_real xs lag\<bar> \<le> ac_real xs 0"
proof -
  let ?n = "length xs"
  have "\<bar>ac_real xs lag\<bar> \<le> (\<Sum>i<?n - lag. \<bar>xs ! i * xs ! (i + lag)\<bar>)"
    unfolding ac_real_def by (rule sum_abs)
  also have "\<dots> \<le> (\<Sum>i<?n - lag. ((xs ! i)\<^sup>2 + (xs ! (i + lag))\<^sup>2) / 2)"
    by (rule sum_mono) (rule abs_mult_le_squares)
  also have "\<dots> = ((\<Sum>i<?n - lag. (xs ! i)\<^sup>2) + (\<Sum>i<?n - lag. (xs ! (i + lag))\<^sup>2)) / 2"
    by (simp add: sum.distrib sum_divide_distrib add_divide_distrib)
  also have "\<dots> \<le> (ac_real xs 0 + ac_real xs 0) / 2"
  proof -
    have a: "(\<Sum>i<?n - lag. (xs ! i)\<^sup>2) \<le> ac_real xs 0"
      unfolding ac_real_zero by (rule sum_mono2) auto
    have "(\<Sum>i<?n - lag. (xs ! (i + lag))\<^sup>2) = (\<Sum>j\<in>(\<lambda>i. i + lag) ` {..<?n - lag}. (xs ! j)\<^sup>2)"
      by (simp add: sum.reindex)
    also have "\<dots> \<le> ac_real xs 0"
      unfolding ac_real_zero by (rule sum_mono2) auto
    finally have b: "(\<Sum>i<?n - lag. (xs ! (i + lag))\<^sup>2) \<le> ac_real xs 0" .
    show ?thesis using a b by simp
  qed
  finally show ?thesis by simp
qed

lemma foldl_nmax_bounded:
  assumes "\<forall>y\<in>set ys. y \<le> a"
  shows "foldl nmax (Fin a) (map Fin ys) = Fin a"
  using assms by (induction ys) (simp_all add: nmax_def)

lemma mathMax_first:
  assumes "\<forall>y\<in>set ys. y \<le> a"
  shows "mathMax (map Fin (a # ys)) = Fin a"
  using foldl_nmax_bounded[OF assms] by (simp add: mathMax_def nmax_def)

lemma mathMax_autocorr:
  assumes "xs \<noteq> []"
  shows "mathMax (autocorr (map Fin xs)) = Fin (ac_real xs 0)"
proof -
  have "[0..<length xs] = 0 # [1..<length xs]"
    using assms by (simp add: upt_conv_Cons)
  then have "autocorr (map Fin xs) = map Fin (ac_real xs 0 # map (ac_real xs) [1..<length xs])"
    by (simp add: autocorr_finite)
  moreover have "\<forall>y\<in>set (map (ac_real xs) [1..<length xs]). y \<le> ac_real xs 0"
    using ac_real_bound[of xs] by (auto intro: order_trans[OF abs_ge_self])
  ultimately show ?thesis by (simp only: mathMax_first)
qed

text \<open>
  Claim C9. For a non-empty signal of finite samples, in exact arithmetic: the
  autocorrelation at lag 0 is a finite \<open>a0 \<ge> 0\<close>, every autocorrelation value is finite
  and at most \<open>a0\<close> in absolute value, and \<^verbatim>\<open>Math.max(...ac)\<close> is \<open>a0\<close>, attained at lag 0.
  When \<open>a0\<close> is not zero, so that the pitch detector goes on to divide by it, the
  normalized value at lag 0 is \<open>1\<close> and every normalized value lies in \<open>[-1, 1]\<close>.
\<close>

theorem autocorr_bounded_by_energy:
  assumes "xs \<noteq> []"
  shows "\<exists>a0. 0 \<le> a0 \<and>
      autocorr (map Fin xs) ! 0 = Fin a0 \<and>
      mathMax (autocorr (map Fin xs)) = Fin a0 \<and>
      (\<forall>lag<length xs. \<exists>v. autocorr (map Fin xs) ! lag = Fin v \<and> \<bar>v\<bar> \<le> a0) \<and>
      (a0 \<noteq> 0 \<longrightarrow>
         normalize (autocorr (map Fin xs)) (mathMax (autocorr (map Fin xs))) ! 0 = Fin 1 \<and>
         (\<forall>lag<length xs. \<exists>w.
            normalize (autocorr (map Fin xs)) (mathMax (autocorr (map Fin xs))) ! lag = Fin w \<and>
            - 1 \<le> w \<and> w \<le> 1))"
proof -
  let ?a0 = "ac_real xs 0"
  let ?ac = "autocorr (map Fin xs)"
  have n: "0 < length xs" using assms by simp
  have nth: "?ac ! lag = Fin (ac_real xs lag)" if "lag < length xs" for lag
    using that by (simp add: autocorr_finite)
  have len: "length ?ac = length xs" by (simp add: autocorr_finite)
  have mx: "mathMax ?ac = Fin ?a0" using assms by (rule mathMax_autocorr)
  have norm: "normalize ?ac (mathMax ?ac) ! lag = Fin (ac_real xs lag / ?a0)"
    if "lag < length xs" "?a0 \<noteq> 0" for lag
    using that by (simp add: normalize_def mx nth len)
  have unit: "- 1 \<le> ac_real xs lag / ?a0 \<and> ac_real xs lag / ?a0 \<le> 1" if "?a0 \<noteq> 0" for lag
  proof -
    have pos: "0 < ?a0" using that ac_real_zero_nonneg[of xs] by simp
    have "\<bar>ac_real xs lag\<bar> \<le> ?a0" by (rule ac_real_bound)
    then have "- ?a0 \<le> ac_real xs lag" "ac_real xs lag \<le> ?a0" by linarith+
    then show ?thesis using pos by (simp add: pos_le_divide_eq pos_divide_le_eq)
  qed
  have "0 \<le> ?a0" by (rule ac_real_zero_nonneg)
  moreover have "?ac ! 0 = Fin ?a0" using nth[OF n] .
  moreover have "\<forall>lag<length xs. \<exists>v. ?ac ! lag = Fin v \<and> \<bar>v\<bar> \<le> ?a0"
    using nth ac_real_bound by blast
  moreover have "normalize ?ac (mathMax ?ac) ! 0 = Fin 1" if "?a0 \<noteq> 0"
    using norm[OF n that] that by simp
  moreover have "\<forall>lag<length xs. \<exists>w. normalize ?ac (mathMax ?ac) ! lag = Fin w \<and> - 1 \<le> w \<and> w \<le> 1"
    if "?a0 \<noteq> 0"
    using norm unit that by blast
  ultimately show ?thesis using mx by (intro exI[of _ ?a0]) simp
qed

theorem autocorr_bounded_by_energy_witness:
  "\<exists>a0. 0 \<le> a0 \<and> autocorr [Fin 1, Fin (- 2)] ! 0 = Fin a0 \<and>
         mathMax (autocorr [Fin 1, Fin (- 2)]) = Fin a0 \<and>
         (\<exists>v. autocorr [Fin 1, Fin (- 2)] ! 1 = Fin v \<and> \<bar>v\<bar> \<le> a0)"
proof -
  have "[1, - 2 :: real] \<noteq> []" by simp
  from autocorr_bounded_by_energy[OF this] obtain a0 where
    a: "0 \<le> a0" "autocorr (map Fin [1, - 2]) ! 0 = Fin a0"
       "mathMax (autocorr (map Fin [1, - 2])) = Fin a0"
       "\<forall>lag<length [1, - 2 :: real]. \<exists>v. autocorr (map Fin [1, - 2]) ! lag = Fin v \<and> \<bar>v\<bar> \<le> a0"
    by blast
  from a(4) have "\<exists>v. autocorr (map Fin [1, - 2]) ! 1 = Fin v \<and> \<bar>v\<bar> \<le> a0" by simp
  with a(1,2,3) show ?thesis by (intro exI[of _ a0]) simp
qed

lemma pitch_loop_done: "\<not> nlt i maxLag \<Longrightarrow> pitch_loop nz maxLag i s = Some s"
  by (subst pitch_loop.simps) simp

lemma pitch_loop_next:
  "nlt i maxLag \<Longrightarrow>
   pitch_loop nz maxLag i s =
   pitch_loop nz maxLag (nadd i (Fin 1))
     (if ngt (to_number (idx nz i)) (snd s) then (i, to_number (idx nz i)) else s)"
  by (subst pitch_loop.simps) simp

lemma pitch_loop_finite: "\<exists>s'. pitch_loop nz (Fin hi) (Fin lo) s = Some s'"
proof (induction "nat \<lceil>hi - lo\<rceil>" arbitrary: lo s)
  case 0
  then have "\<not> lo < hi" by (simp add: ceiling_le_iff)
  then show ?case by (simp add: pitch_loop_done)
next
  case (Suc n)
  show ?case
  proof (cases "lo < hi")
    case True
    have "hi - (lo + 1) = hi - lo - 1" by simp
    then have "\<lceil>hi - (lo + 1)\<rceil> = \<lceil>hi - lo\<rceil> - 1" by (simp only: ceiling_diff_one)
    then have "n = nat \<lceil>hi - (lo + 1)\<rceil>" using Suc.hyps(2) by linarith
    from Suc.hyps(1)[OF this] show ?thesis using True by (simp add: pitch_loop_next)
  next
    case False
    then show ?thesis by (simp add: pitch_loop_done)
  qed
qed

lemma pitch_loop_NaN:
  assumes "snd s = NaN"
  shows "pitch_loop nz (Fin hi) (Fin lo) s = Some s"
proof (induction "nat \<lceil>hi - lo\<rceil>" arbitrary: lo)
  case 0
  then have "\<not> lo < hi" by (simp add: ceiling_le_iff)
  then show ?case by (simp add: pitch_loop_done)
next
  case (Suc n)
  show ?case
  proof (cases "lo < hi")
    case True
    have "hi - (lo + 1) = hi - lo - 1" by simp
    then have "\<lceil>hi - (lo + 1)\<rceil> = \<lceil>hi - lo\<rceil> - 1" by (simp only: ceiling_diff_one)
    then have "n = nat \<lceil>hi - (lo + 1)\<rceil>" using Suc.hyps(2) by linarith
    from Suc.hyps(1)[OF this] show ?thesis using True assms by (simp add: pitch_loop_next ngt_def)
  next
    case False
    then show ?thesis by (simp add: pitch_loop_done)
  qed
qed

lemma idx_beyond: "real (length xs) \<le> of_int m \<Longrightarrow> idx xs (Fin (of_int m)) = None"
  by simp

text \<open>
  Claim C6, as the code has it. \<^verbatim>\<open>pitchDetectionAutocorr\<close> has no failure for a bad
  lag window: for every signal, every finite \<open>fs\<close> and all finite nonzero frequency
  bounds it returns a number. When the first lag \<open>\<lfloor>fs/maxFreq\<rfloor>\<close> is at or past the end of
  a signal that is not silent, every normalized value it reads is \<^verbatim>\<open>undefined\<close>, no
  comparison succeeds, and it returns \<open>fs / \<lfloor>fs/maxFreq\<rfloor>\<close>. When the window holds no lag
  after the first (\<open>\<lfloor>fs/minFreq\<rfloor> \<le> \<lfloor>fs/maxFreq\<rfloor> + 1\<close>), the result is decided by the
  normalized value at the first lag alone: \<open>0\<close> if that is below \<open>1/2\<close>, otherwise
  \<open>fs / \<lfloor>fs/maxFreq\<rfloor>\<close>.
\<close>

theorem pitchDetectionAutocorr_no_range_error:
  assumes "minFreq \<noteq> 0" "maxFreq \<noteq> 0"
  shows "(\<exists>v. pitchDetectionAutocorr signal (Fin fs) (Fin minFreq) (Fin maxFreq) = Some v) \<and>
     (mathMax (autocorr signal) \<noteq> Fin 0 \<and> real (length signal) \<le> of_int \<lfloor>fs / maxFreq\<rfloor> \<longrightarrow>
        pitchDetectionAutocorr signal (Fin fs) (Fin minFreq) (Fin maxFreq)
          = Some (ndiv (Fin fs) (Fin (of_int \<lfloor>fs / maxFreq\<rfloor>)))) \<and>
     (mathMax (autocorr signal) \<noteq> Fin 0 \<and> \<lfloor>fs / minFreq\<rfloor> \<le> \<lfloor>fs / maxFreq\<rfloor> + 1 \<longrightarrow>
        pitchDetectionAutocorr signal (Fin fs) (Fin minFreq) (Fin maxFreq)
          = (if nlt (to_number (idx (normalize (autocorr signal) (mathMax (autocorr signal)))
                                    (Fin (of_int \<lfloor>fs / maxFreq\<rfloor>))))
                    (Fin (1 / 2))
             then Some (Fin 0) else Some (ndiv (Fin fs) (Fin (of_int \<lfloor>fs / maxFreq\<rfloor>)))))"
proof -
  let ?nz = "normalize (autocorr signal) (mathMax (autocorr signal))"
  let ?lo = "of_int \<lfloor>fs / maxFreq\<rfloor> :: real"
  let ?hi = "of_int \<lfloor>fs / minFreq\<rfloor> :: real"
  let ?s0 = "(Fin ?lo, to_number (idx ?nz (Fin ?lo)))"
  have unfold: "pitchDetectionAutocorr signal (Fin fs) (Fin minFreq) (Fin maxFreq) =
      (if mathMax (autocorr signal) = Fin 0 then Some (Fin 0)
       else case pitch_loop ?nz (Fin ?hi) (Fin (?lo + 1)) ?s0 of
              None \<Rightarrow> None
            | Some (peakLag, maxVal) \<Rightarrow>
                if nlt maxVal (Fin (1 / 2)) then Some (Fin 0) else Some (ndiv (Fin fs) peakLag))"
    using assms by (simp add: pitchDetectionAutocorr_def Let_def del: idx.simps)
  have 1: "\<exists>v. pitchDetectionAutocorr signal (Fin fs) (Fin minFreq) (Fin maxFreq) = Some v"
  proof -
    obtain s' where "pitch_loop ?nz (Fin ?hi) (Fin (?lo + 1)) ?s0 = Some s'"
      using pitch_loop_finite by blast
    then show ?thesis unfolding unfold by (cases s') (simp del: idx.simps)
  qed
  have 2: "pitchDetectionAutocorr signal (Fin fs) (Fin minFreq) (Fin maxFreq)
          = Some (ndiv (Fin fs) (Fin ?lo))"
    if "mathMax (autocorr signal) \<noteq> Fin 0" "real (length signal) \<le> ?lo"
  proof -
    have "length ?nz = length signal" by (simp add: normalize_def autocorr_def Let_def)
    then have "idx ?nz (Fin ?lo) = None" using that(2) idx_beyond[of ?nz "\<lfloor>fs / maxFreq\<rfloor>"] by simp
    then have s0: "?s0 = (Fin ?lo, NaN)" by simp
    have "pitch_loop ?nz (Fin ?hi) (Fin (?lo + 1)) (Fin ?lo, NaN) = Some (Fin ?lo, NaN)"
      by (rule pitch_loop_NaN) simp
    then show ?thesis unfolding unfold s0 using that(1) by simp
  qed
  have 3: "pitchDetectionAutocorr signal (Fin fs) (Fin minFreq) (Fin maxFreq)
          = (if nlt (to_number (idx ?nz (Fin ?lo))) (Fin (1 / 2))
             then Some (Fin 0) else Some (ndiv (Fin fs) (Fin ?lo)))"
    if "mathMax (autocorr signal) \<noteq> Fin 0" "\<lfloor>fs / minFreq\<rfloor> \<le> \<lfloor>fs / maxFreq\<rfloor> + 1"
  proof -
    have "?hi \<le> ?lo + 1" using that(2) by linarith
    then have "\<not> nlt (Fin (?lo + 1)) (Fin ?hi)" by simp
    then have "pitch_loop ?nz (Fin ?hi) (Fin (?lo + 1)) ?s0 = Some ?s0"
      by (rule pitch_loop_done)
    then show ?thesis unfolding unfold using that(1) by (simp del: idx.simps)
  qed
  show ?thesis using 1 2 3 by blast
qed

theorem pitchDetectionAutocorr_no_range_error_witness:
  "mathMax (autocorr [Fin 1, Fin 1]) \<noteq> Fin 0 \<and>
   real (length [Fin 1, Fin 1]) \<le> of_int \<lfloor>8 / 2 :: real\<rfloor> \<and>
   \<lfloor>8 / 2 :: real\<rfloor> \<le> \<lfloor>8 / 2 :: real\<rfloor> + 1 \<and>
   pitchDetectionAutocorr [Fin 1, Fin 1] (Fin 8) (Fin 2) (Fin 2) = Some (Fin 2)"
proof -
  have m: "mathMax (autocorr [Fin 1, Fin 1]) \<noteq> Fin 0"
    by (simp add: autocorr_def mathMax_def nmax_def Let_def upt_rec)
  have l: "real (length [Fin 1, Fin 1]) \<le> of_int \<lfloor>8 / 2 :: real\<rfloor>" by simp
  have "(2::real) \<noteq> 0" by simp
  note t = pitchDetectionAutocorr_no_range_error[OF this this, of "[Fin 1, Fin 1]" 8]
  from t[THEN conjunct2, THEN conjunct1] m l
  have "pitchDetectionAutocorr [Fin 1, Fin 1] (Fin 8) (Fin 2) (Fin 2)
          = Some (ndiv (Fin 8) (Fin (of_int \<lfloor>8 / 2 :: real\<rfloor>)))"
    by blast
  then show ?thesis using m l by simp
qed

text \<open>
  Claim C6 as stated fails: for a signal of two samples, \<open>fs = 8\<close>, \<open>minFreq = 1\<close> and
  \<open>maxFreq = 2\<close> the lag
  window is \<open>[4, 8)\<close>, past the end of the signal; the call returns \<open>8 / 4 = 2\<close>.
\<close>

theorem pitchDetectionAutocorr_range_counterexample:
  "pitchDetectionAutocorr [Fin 1, Fin 1] (Fin 8) (Fin 1) (Fin 2) = Some (Fin 2)"
  by (simp add: pitchDetectionAutocorr_def autocorr_def mathMax_def nmax_def normalize_def
      pitch_loop.simps ngt_def Let_def upt_rec)

section \<open>Vector quantizer: results\<close>

text \<open>Rounding commutes with the sign and with a division by a power of two.\<close>

lemma round_even_neg: "round_even (- x) = - round_even x"
proof (cases "x = of_int \<lfloor>x\<rfloor>")
  case True
  then obtain k where k: "x = of_int k" by blast
  have "- x = of_int (- k)" using k by simp
  then have "round_even (- x) = - k" by (simp only: round_even_of_int)
  then show ?thesis using k by (simp add: round_even_of_int)
next
  case False
  let ?f = "\<lfloor>x\<rfloor>"
  have lt: "of_int ?f < x" using False by (metis floor_less_cancel floor_of_int less_eq_real_def not_le of_int_floor_le)
  have ub: "x < of_int ?f + 1" by linarith
  have fl: "\<lfloor>- x\<rfloor> = - ?f - 1"
  proof (rule floor_unique)
    have c: "of_int (- ?f - 1) = - of_int ?f - (1::real)" by simp
    show "of_int (- ?f - 1) \<le> - x" unfolding c using ub by linarith
    show "- x < of_int (- ?f - 1) + 1" unfolding c using lt by linarith
  qed
  have par: "even (- ?f - 1) \<longleftrightarrow> odd ?f" by simp
  show ?thesis
    unfolding round_even_def Let_def fl par
    using lt ub by (auto simp: algebra_simps)
qed

lemma fl_neg: "fl (- x) = - fl x"
  by (simp add: fl_def Let_def round_even_neg)

lemma fl_div_pow2:
  assumes "x \<noteq> 0"
  shows "fl (x / 2 ^ k) = fl x / 2 ^ k"
proof (induction k)
  case 0
  show ?case by simp
next
  case (Suc k)
  have nz: "x / 2 ^ k \<noteq> 0" using assms by simp
  have "fl (x / 2 ^ Suc k) = fl (x / 2 ^ k / 2)" by (simp add: field_simps)
  also have "\<dots> = fl (x / 2 ^ k) / 2" using nz by (rule fl_half)
  also have "\<dots> = fl x / 2 ^ Suc k" using Suc.IH by (simp add: field_simps)
  finally show ?case .
qed

text \<open>Small integers are doubles.\<close>

lemma fl_4: "fl 4 = 4"
  using fl_nat[of 4] by simp

lemma fl_5: "fl 5 = 5"
  using fl_nat[of 5] by simp

lemma fl_9: "fl 9 = 9"
  using fl_nat[of 9] by simp

lemma fl_25: "fl 25 = 25"
  using fl_nat[of 25] by simp

lemma fl_81: "fl 81 = 81"
  using fl_nat[of 81] by simp

lemmas fl_small = fl_0 fl_1 fl_2 fl_4 fl_5 fl_9 fl_25 fl_81 fl_neg

lemma fl_3: "fl 3 = 3"
  using fl_nat[of 3] by simp

lemmas sqdist_defs = sqdist_def rd_def fadd_def fsub_def fmul_def nsub_def Let_def

text \<open>
  The comparison \<^verbatim>\<open><\<close> is a strict order on the numbers other than \<^verbatim>\<open>NaN\<close>, and it is
  false whenever \<^verbatim>\<open>NaN\<close> is compared.
\<close>

lemma nlt_trans: "nlt a b \<Longrightarrow> nlt b c \<Longrightarrow> nlt a c"
  by (cases a; cases b; cases c) simp_all

lemma nlt_linear: "a \<noteq> NaN \<Longrightarrow> b \<noteq> NaN \<Longrightarrow> \<not> nlt a b \<Longrightarrow> a = b \<or> nlt b a"
  by (cases a; cases b) auto

lemma nlt_irrefl: "\<not> nlt a a"
  by (cases a) simp_all

lemma nlt_not_NaN: "nlt a b \<Longrightarrow> a \<noteq> NaN \<and> b \<noteq> NaN"
  by (cases a; cases b) simp_all

lemma nlt_PInf: "\<not> nlt a PInf \<Longrightarrow> a = PInf \<or> a = NaN"
  by (cases a) simp_all

text \<open>
  The invariant of the search over the codewords, for any distances \<open>dst\<close>: either the
  state is still \<open>(Infinity, 0)\<close> and no distance so far was below \<^verbatim>\<open>Infinity\<close>, or the
  state holds an index seen so far and its distance, no distance so far is smaller, and
  every distance before that index is greater or \<^verbatim>\<open>NaN\<close>.
\<close>

lemma nearest_fold:
  "case foldl (\<lambda>s k. let d = dst k in if nlt d (fst s) then (d, k) else s) (PInf, 0) [0..<K] of
     (m, i) \<Rightarrow>
       (m = PInf \<and> i = 0 \<and> (\<forall>k<K. \<not> nlt (dst k) PInf)) \<or>
       (i < K \<and> m = dst i \<and> (\<forall>k<K. \<not> nlt (dst k) m) \<and> (\<forall>k<i. nlt m (dst k) \<or> dst k = NaN))"
proof (induction K)
  case 0
  show ?case by simp
next
  case (Suc n)
  let ?f = "\<lambda>s k. let d = dst k in if nlt d (fst s) then (d, k) else s"
  obtain m i where mi: "foldl ?f (PInf, 0) [0..<n] = (m, i)" by (cases "foldl ?f (PInf, 0) [0..<n]")
  from Suc.IH have ih:
    "(m = PInf \<and> i = 0 \<and> (\<forall>k<n. \<not> nlt (dst k) PInf)) \<or>
     (i < n \<and> m = dst i \<and> (\<forall>k<n. \<not> nlt (dst k) m) \<and> (\<forall>k<i. nlt m (dst k) \<or> dst k = NaN))"
    unfolding mi by simp
  show ?case
  proof (cases "nlt (dst n) m")
    case True
    have st: "foldl ?f (PInf, 0) [0..<Suc n] = (dst n, n)"
      using mi True by (simp add: Let_def)
    have lo: "\<not> nlt (dst k) (dst n)" if "k < n" for k
    proof
      assume "nlt (dst k) (dst n)"
      then have "nlt (dst k) m" using True by (rule nlt_trans)
      then show False using ih that by auto
    qed
    have up: "nlt (dst n) (dst k) \<or> dst k = NaN" if "k < n" for k
    proof (cases "dst k = NaN")
      case False
      have km: "\<not> nlt (dst k) m" using ih that by auto
      have "m \<noteq> NaN" using True nlt_not_NaN by blast
      then have "dst k = m \<or> nlt m (dst k)" using nlt_linear[of "dst k" m] False km by blast
      then show ?thesis using True nlt_trans by blast
    qed simp
    have "\<forall>k<Suc n. \<not> nlt (dst k) (dst n)"
      using lo nlt_irrefl by (auto simp: less_Suc_eq)
    then show ?thesis unfolding st using up by simp
  next
    case False
    have st: "foldl ?f (PInf, 0) [0..<Suc n] = (m, i)"
      using mi False by (simp add: Let_def)
    from ih show ?thesis
    proof
      assume a: "m = PInf \<and> i = 0 \<and> (\<forall>k<n. \<not> nlt (dst k) PInf)"
      then have "\<forall>k<Suc n. \<not> nlt (dst k) PInf" using False by (auto simp: less_Suc_eq)
      then show ?thesis unfolding st using a by simp
    next
      assume a: "i < n \<and> m = dst i \<and> (\<forall>k<n. \<not> nlt (dst k) m) \<and>
                 (\<forall>k<i. nlt m (dst k) \<or> dst k = NaN)"
      then have "\<forall>k<Suc n. \<not> nlt (dst k) m" using False by (auto simp: less_Suc_eq)
      then show ?thesis unfolding st using a by auto
    qed
  qed
qed

lemma nearest_least:
  assumes "codebook \<noteq> []"
  shows "nearest D codebook x < length codebook \<and>
     (\<forall>k<length codebook.
        \<not> nlt (sqdist D x (codebook ! k)) (sqdist D x (codebook ! nearest D codebook x))) \<and>
     (\<forall>k<nearest D codebook x.
        nlt (sqdist D x (codebook ! nearest D codebook x)) (sqdist D x (codebook ! k)) \<or>
        sqdist D x (codebook ! k) = NaN)"
proof -
  let ?K = "length codebook"
  let ?dst = "\<lambda>k. sqdist D x (codebook ! k)"
  let ?f = "\<lambda>s k. let d = ?dst k in if nlt d (fst s) then (d, k) else s"
  obtain m i where mi: "foldl ?f (PInf, 0) [0..<?K] = (m, i)"
    by (cases "foldl ?f (PInf, 0) [0..<?K]")
  have n: "nearest D codebook x = i"
    using mi by (simp add: nearest_def)
  have K: "0 < ?K" using assms by simp
  from nearest_fold[where dst = ?dst and K = ?K] have
    "(m = PInf \<and> i = 0 \<and> (\<forall>k<?K. \<not> nlt (?dst k) PInf)) \<or>
     (i < ?K \<and> m = ?dst i \<and> (\<forall>k<?K. \<not> nlt (?dst k) m) \<and> (\<forall>k<i. nlt m (?dst k) \<or> ?dst k = NaN))"
    unfolding mi by simp
  then show ?thesis
  proof
    assume a: "m = PInf \<and> i = 0 \<and> (\<forall>k<?K. \<not> nlt (?dst k) PInf)"
    have "\<not> nlt (?dst k) (?dst 0)" if "k < ?K" for k
    proof
      assume l: "nlt (?dst k) (?dst 0)"
      have "?dst 0 = PInf \<or> ?dst 0 = NaN" using a K nlt_PInf by blast
      then have "nlt (?dst k) PInf" using l nlt_not_NaN by auto
      then show False using a that by simp
    qed
    then show ?thesis unfolding n using a K by simp
  next
    assume "i < ?K \<and> m = ?dst i \<and> (\<forall>k<?K. \<not> nlt (?dst k) m) \<and>
            (\<forall>k<i. nlt m (?dst k) \<or> ?dst k = NaN)"
    then show ?thesis unfolding n by blast
  qed
qed

text \<open>
  When every computed distance is the squared Euclidean distance, the index found is
  that of the nearest codeword, the lowest of them.
\<close>

lemma nearest_exact:
  assumes "cb \<noteq> []"
    and "\<forall>k<length cb. sqdist (length xr) (map Fin xr) (map Fin (cb ! k))
                            = Fin (sqdist_real xr (cb ! k))"
  shows "(\<forall>k<length cb.
            sqdist_real xr (cb ! nearest (length xr) (map (map Fin) cb) (map Fin xr))
              \<le> sqdist_real xr (cb ! k)) \<and>
         (\<forall>k<nearest (length xr) (map (map Fin) cb) (map Fin xr).
            sqdist_real xr (cb ! nearest (length xr) (map (map Fin) cb) (map Fin xr))
              < sqdist_real xr (cb ! k))"
proof -
  let ?i = "nearest (length xr) (map (map Fin) cb) (map Fin xr)"
  let ?dst = "\<lambda>k. sqdist (length xr) (map Fin xr) (map (map Fin) cb ! k)"
  have ne: "map (map Fin) cb \<noteq> []" using assms(1) by simp
  note t = nearest_least[OF ne, of "length xr" "map Fin xr", unfolded length_map]
  have i: "?i < length cb" using t by blast
  have d: "?dst k = Fin (sqdist_real xr (cb ! k))" if "k < length cb" for k
    using that assms(2) by simp
  have "sqdist_real xr (cb ! ?i) \<le> sqdist_real xr (cb ! k)" if "k < length cb" for k
  proof -
    have "\<not> nlt (?dst k) (?dst ?i)" using t that by blast
    then show ?thesis unfolding d[OF that] d[OF i] by simp
  qed
  moreover have "sqdist_real xr (cb ! ?i) < sqdist_real xr (cb ! k)" if "k < ?i" for k
  proof -
    have k: "k < length cb" using that i by simp
    have "nlt (?dst ?i) (?dst k) \<or> ?dst k = NaN" using t that by blast
    then show ?thesis unfolding d[OF k] d[OF i] by simp
  qed
  ultimately show ?thesis by blast
qed

lemma vectorQuantization_example:
  "vectorQuantization [[Fin 0], [Fin 10]] [[Fin 1], [Fin 9], [Fin 5]] = [0, 1, 0]"
  by (simp add: vectorQuantization_def nearest_def sqdist_defs fl_small upt_rec)

lemma sqdist_example:
  "sqdist 1 [Fin 9] [Fin 10] = Fin 1" "sqdist 1 [Fin 9] [Fin 0] = Fin 81"
  by (simp_all add: sqdist_defs fl_small)

text \<open>
  Claim C8. For a non-empty codebook \<^verbatim>\<open>vectorQuantization\<close> returns one index for every
  feature vector, each below the number of codewords. The index is that of a codeword
  with the least distance \<^emph>\<open>as lines 211-214 compute it\<close>, every subtraction, square
  and addition rounded to a double: no codeword has a smaller computed distance, and
  every codeword before it has a greater computed distance, or the distance \<^verbatim>\<open>NaN\<close>.
  When the computed distances of a feature vector of finite coordinates are the squared
  Euclidean distances (no operation rounds), the index is that of the codeword with the
  least squared Euclidean distance, the lowest such index. For the codebook \<open>[[0], [10]]\<close>
  the features \<open>[1]\<close>, \<open>[9]\<close> and \<open>[5]\<close> map to \<open>0\<close>, \<open>1\<close> and \<open>0\<close>.
\<close>

theorem vectorQuantization_least_computed_distance:
  assumes "codebook \<noteq> []" "n < length features"
  shows "length (vectorQuantization codebook features) = length features \<and>
     vectorQuantization codebook features ! n < length codebook \<and>
     (\<forall>k<length codebook.
        \<not> nlt (sqdist (length (features ! n)) (features ! n) (codebook ! k))
               (sqdist (length (features ! n)) (features ! n)
                  (codebook ! (vectorQuantization codebook features ! n)))) \<and>
     (\<forall>k<vectorQuantization codebook features ! n.
        nlt (sqdist (length (features ! n)) (features ! n)
               (codebook ! (vectorQuantization codebook features ! n)))
            (sqdist (length (features ! n)) (features ! n) (codebook ! k)) \<or>
        sqdist (length (features ! n)) (features ! n) (codebook ! k) = NaN) \<and>
     (\<forall>cb x. codebook = map (map Fin) cb \<and> features ! n = map Fin x \<and>
             (\<forall>k<length cb. sqdist (length x) (map Fin x) (map Fin (cb ! k))
                               = Fin (sqdist_real x (cb ! k))) \<longrightarrow>
        (\<forall>k<length cb.
           sqdist_real x (cb ! (vectorQuantization codebook features ! n)) \<le> sqdist_real x (cb ! k)) \<and>
        (\<forall>k<vectorQuantization codebook features ! n.
           sqdist_real x (cb ! (vectorQuantization codebook features ! n)) < sqdist_real x (cb ! k))) \<and>
     vectorQuantization [[Fin 0], [Fin 10]] [[Fin 1], [Fin 9], [Fin 5]] = [0, 1, 0]"
proof -
  have nth: "vectorQuantization codebook features ! n
             = nearest (length (features ! n)) codebook (features ! n)"
    using assms(2) by (simp add: vectorQuantization_def)
  have len: "length (vectorQuantization codebook features) = length features"
    by (simp add: vectorQuantization_def)
  note t = nearest_least[OF assms(1), of "length (features ! n)" "features ! n"]
  have exact: "(\<forall>k<length cb.
           sqdist_real x (cb ! (vectorQuantization codebook features ! n)) \<le> sqdist_real x (cb ! k)) \<and>
        (\<forall>k<vectorQuantization codebook features ! n.
           sqdist_real x (cb ! (vectorQuantization codebook features ! n)) < sqdist_real x (cb ! k))"
    if a: "codebook = map (map Fin) cb \<and> features ! n = map Fin x \<and>
           (\<forall>k<length cb. sqdist (length x) (map Fin x) (map Fin (cb ! k))
                             = Fin (sqdist_real x (cb ! k)))"
    for cb x
  proof -
    have cb: "codebook = map (map Fin) cb" and fe: "features ! n = map Fin x"
      and ex: "\<forall>k<length cb. sqdist (length x) (map Fin x) (map Fin (cb ! k))
                               = Fin (sqdist_real x (cb ! k))"
      using a by blast+
    have "cb \<noteq> []" using cb assms(1) by auto
    note e = nearest_exact[OF this ex]
    have nth': "vectorQuantization codebook features ! n
                = nearest (length x) (map (map Fin) cb) (map Fin x)"
      using nth unfolding fe length_map unfolding cb .
    show ?thesis unfolding nth' by (rule e)
  qed
  have least: "length (vectorQuantization codebook features) = length features \<and>
     vectorQuantization codebook features ! n < length codebook \<and>
     (\<forall>k<length codebook.
        \<not> nlt (sqdist (length (features ! n)) (features ! n) (codebook ! k))
               (sqdist (length (features ! n)) (features ! n)
                  (codebook ! (vectorQuantization codebook features ! n)))) \<and>
     (\<forall>k<vectorQuantization codebook features ! n.
        nlt (sqdist (length (features ! n)) (features ! n)
               (codebook ! (vectorQuantization codebook features ! n)))
            (sqdist (length (features ! n)) (features ! n) (codebook ! k)) \<or>
        sqdist (length (features ! n)) (features ! n) (codebook ! k) = NaN)"
    unfolding nth[symmetric] len
    using t[unfolded nth[symmetric]] by simp
  show ?thesis
    using least exact vectorQuantization_example by (intro conjI allI impI) blast+
qed

theorem vectorQuantization_least_computed_distance_witness:
  "vectorQuantization [[Fin 0], [Fin 10]] [[Fin 1], [Fin 9], [Fin 5]] ! 1 = 1 \<and>
   nlt (sqdist 1 [Fin 9] [Fin 10]) (sqdist 1 [Fin 9] [Fin 0]) \<and>
   sqdist_real [9] [10] < sqdist_real [9] [0]"
proof -
  let ?cb = "[[Fin 0], [Fin 10]]"
  let ?fs = "[[Fin 1], [Fin 9], [Fin 5]]"
  have h: "?cb \<noteq> []" "(1::nat) < length ?fs"
    by simp_all
  note t = vectorQuantization_least_computed_distance[OF h]
  note ex = t[THEN conjunct2, THEN conjunct2, THEN conjunct2, THEN conjunct2, THEN conjunct2]
  have i: "vectorQuantization ?cb ?fs ! 1 = 1" unfolding ex by simp
  note low = t[THEN conjunct2, THEN conjunct2, THEN conjunct2, THEN conjunct1, unfolded i]
  then have "(0::nat) < 1 \<longrightarrow>
      nlt (sqdist (length (?fs ! 1)) (?fs ! 1) (?cb ! 1))
          (sqdist (length (?fs ! 1)) (?fs ! 1) (?cb ! 0)) \<or>
      sqdist (length (?fs ! 1)) (?fs ! 1) (?cb ! 0) = NaN"
    by (rule spec)
  then have computed: "nlt (sqdist 1 [Fin 9] [Fin 10]) (sqdist 1 [Fin 9] [Fin 0])"
    using sqdist_example by simp
  have fin: "?cb = map (map Fin) [[0], [10]] \<and> ?fs ! 1 = map Fin [9] \<and>
     (\<forall>k<length [[0], [10::real]].
        sqdist (length [9::real]) (map Fin [9]) (map Fin ([[0], [10]] ! k))
          = Fin (sqdist_real [9] ([[0], [10]] ! k)))"
    using sqdist_example by (simp add: sqdist_real_def less_Suc_eq)
  note exact = t[THEN conjunct2, THEN conjunct2, THEN conjunct2, THEN conjunct2, THEN conjunct1,
      rule_format, OF fin, THEN conjunct2, unfolded i]
  then have "(0::nat) < 1 \<longrightarrow> sqdist_real [9] ([[0], [10]] ! 1) < sqdist_real [9] ([[0], [10]] ! 0)"
    by (rule spec)
  then have "sqdist_real [9] [10] < sqdist_real [9] [0]" by simp
  then show ?thesis using i computed by simp
qed

text \<open>The roundings of the two runs below.\<close>

lemma fl_pow2_27: "fl (1 / 134217728) = 1 / 134217728"
  using fl_div_pow2[of 1 27] by (simp add: fl_1)

lemma fl_pow2_30: "fl (1 / 1073741824) = 1 / 1073741824"
  using fl_div_pow2[of 1 30] by (simp add: fl_1)

lemma fl_pow2_53: "fl (1 / 9007199254740992) = 1 / 9007199254740992"
  using fl_div_pow2[of 1 53] by (simp add: fl_1)

lemma fl_pow2_54: "fl (1 / 18014398509481984) = 1 / 18014398509481984"
  using fl_div_pow2[of 1 54] by (simp add: fl_1)

lemma fl_3_pow2_54: "fl (3 / 18014398509481984) = 3 / 18014398509481984"
  using fl_div_pow2[of 3 54] by (simp add: fl_3)

lemma fl_pow2_60: "fl (1 / 1152921504606846976) = 1 / 1152921504606846976"
  using fl_div_pow2[of 1 60] by (simp add: fl_1)

lemma fl_1_pow2_60: "fl (1152921504606846977 / 1152921504606846976) = 1"
  using fl_binade[of 0 "1152921504606846977 / 1152921504606846976"]
  by (simp add: round_even_def Let_def)

lemma fl_1_pow2_54: "fl (18014398509481985 / 18014398509481984) = 1"
  using fl_binade[of 0 "18014398509481985 / 18014398509481984"]
  by (simp add: round_even_def Let_def)

lemma fl_1_3_pow2_54: "fl (18014398509481987 / 18014398509481984) = 4503599627370497 / 4503599627370496"
  using fl_binade[of 0 "18014398509481987 / 18014398509481984"]
  by (simp add: round_even_def Let_def)

lemmas fl_tiny = fl_pow2_27 fl_pow2_30 fl_pow2_53 fl_pow2_54 fl_3_pow2_54 fl_pow2_60 fl_1_pow2_60
  fl_1_pow2_54 fl_1_3_pow2_54

text \<open>
  Claim C8 as stated fails: the computed distance is not the squared Euclidean distance.
  For the feature \<open>[0, 0]\<close> and the codewords \<open>[1, 1 / 2 ^ 30]\<close> and \<open>[1, 0]\<close> both
  computed distances are \<open>1\<close>, because \<open>1 + 1 / 2 ^ 60\<close> rounds to \<open>1\<close>, and the index is
  \<open>0\<close> though codeword \<open>1\<close> is nearer. For the feature \<open>[0, 0, 0, 0]\<close> and the codewords
  \<open>[a, a, a, 1]\<close> and \<open>[1, a, a, a]\<close> with \<open>a = 1 / 2 ^ 27\<close> the squared Euclidean
  distances are equal; the first is computed as \<open>1 + 1 / 2 ^ 52\<close> and the second as \<open>1\<close>,
  so the index is \<open>1\<close>, not the lowest.
\<close>

theorem vectorQuantization_rounding_counterexample:
  "vectorQuantization [[Fin 1, Fin (1 / 2 ^ 30)], [Fin 1, Fin 0]] [[Fin 0, Fin 0]] = [0] \<and>
   sqdist_real [0, 0] [1, 0] < sqdist_real [0, 0] [1, 1 / 2 ^ 30] \<and>
   vectorQuantization
     [[Fin (1 / 2 ^ 27), Fin (1 / 2 ^ 27), Fin (1 / 2 ^ 27), Fin 1],
      [Fin 1, Fin (1 / 2 ^ 27), Fin (1 / 2 ^ 27), Fin (1 / 2 ^ 27)]]
     [[Fin 0, Fin 0, Fin 0, Fin 0]] = [1] \<and>
   sqdist_real [0, 0, 0, 0] [1 / 2 ^ 27, 1 / 2 ^ 27, 1 / 2 ^ 27, 1]
     = sqdist_real [0, 0, 0, 0] [1, 1 / 2 ^ 27, 1 / 2 ^ 27, 1 / 2 ^ 27]"
proof -
  have 1: "vectorQuantization [[Fin 1, Fin (1 / 2 ^ 30)], [Fin 1, Fin 0]] [[Fin 0, Fin 0]] = [0]"
    by (simp add: vectorQuantization_def nearest_def sqdist_defs fl_small fl_tiny upt_rec)
  have 2: "sqdist_real [0, 0] [1, 0] < sqdist_real [0, 0] [1, 1 / 2 ^ 30]"
    by (simp add: sqdist_real_def lessThan_Suc eval_nat_numeral)
  have 3: "vectorQuantization
     [[Fin (1 / 2 ^ 27), Fin (1 / 2 ^ 27), Fin (1 / 2 ^ 27), Fin 1],
      [Fin 1, Fin (1 / 2 ^ 27), Fin (1 / 2 ^ 27), Fin (1 / 2 ^ 27)]]
     [[Fin 0, Fin 0, Fin 0, Fin 0]] = [1]"
    by (simp add: vectorQuantization_def nearest_def sqdist_defs fl_small fl_tiny upt_rec)
  have 4: "sqdist_real [0, 0, 0, 0] [1 / 2 ^ 27, 1 / 2 ^ 27, 1 / 2 ^ 27, 1]
     = sqdist_real [0, 0, 0, 0] [1, 1 / 2 ^ 27, 1 / 2 ^ 27, 1 / 2 ^ 27]"
    by (simp add: sqdist_real_def lessThan_Suc eval_nat_numeral)
  show ?thesis using 1 2 3 4 by blast
qed

lemmas kmeans_defs = kmeans_iter_def kmeans_assign_def kmeans_mean_def kmeans_moved_def
  kmeans_add_def nearest_def sqdist_def rd_def fadd_def fsub_def fmul_def fdiv_def nsub_def
  ngt_def Let_def fl_0 fl_1 fl_2 fl_4 fl_neg

lemma kmeans_pick:
  assumes "0 \<le> u" "u < 1"
  shows "[[Fin 2], [Fin 2]] ! nat \<lfloor>u * 2\<rfloor> = [Fin 2]"
proof -
  have "0 \<le> \<lfloor>u * 2\<rfloor>" using assms by simp
  moreover have "\<lfloor>u * 2\<rfloor> < 2" using assms by (simp add: floor_less_iff)
  ultimately have "nat \<lfloor>u * 2\<rfloor> = 0 \<or> nat \<lfloor>u * 2\<rfloor> = 1" by linarith
  then show ?thesis by auto
qed

lemma kmeans_iter_first:
  "\<exists>b. kmeans_iter 1 tol [[Fin 2], [Fin 2]] [[Fin 2], [Fin 2]] = Inr ([[Fin 2], [Fin 0]], b)"
  by (simp add: kmeans_defs upt_rec)

lemma kmeans_iter_second:
  "\<exists>b. kmeans_iter 1 tol [[Fin 2], [Fin 2]] [[Fin 2], [Fin 0]] = Inr ([[Fin 2], [Fin 0]], b)"
  by (simp add: kmeans_defs upt_rec)

lemma kmeans_loop_example:
  assumes "codebook = [[Fin 2], [Fin 2]] \<or> codebook = [[Fin 2], [Fin 0]]"
  shows "kmeans_loop 1 tol [[Fin 2], [Fin 2]] (Suc n) codebook = Inr [[Fin 2], [Fin 0]]"
  using assms
proof (induction n arbitrary: codebook)
  case 0
  then show ?case using kmeans_iter_first[of tol] kmeans_iter_second[of tol] by auto
next
  case (Suc n)
  from Suc.prems kmeans_iter_first[of tol] kmeans_iter_second[of tol]
  obtain b where b: "kmeans_iter 1 tol [[Fin 2], [Fin 2]] codebook = Inr ([[Fin 2], [Fin 0]], b)"
    by auto
  have "kmeans_loop 1 tol [[Fin 2], [Fin 2]] (Suc n) [[Fin 2], [Fin 0]] = Inr [[Fin 2], [Fin 0]]"
    by (rule Suc.IH) simp
  then show ?case using b by (simp del: kmeans_loop.simps(2) add: kmeans_loop.simps(2)[of _ _ _ "Suc n"])
qed

text \<open>
  Claim C3. A codeword with no assigned feature vector is meant to keep its value. Line
  198 stores the row of \<^verbatim>\<open>newCodebook\<close> for every codeword; the guard of line 188 only
  skips the division, so a codeword without assignments becomes the row of zeros it was
  initialised to. With the features \<open>[[2], [2]]\<close> and two codewords, both codewords
  start as \<open>[2]\<close> whatever \<^verbatim>\<open>Math.random\<close> draws, both feature vectors go to codeword 0,
  and for every tolerance and every \<open>maxIter \<ge> 1\<close> the result is \<open>[[2], [0]]\<close>.
\<close>

theorem trainVqCodebook_empty_cluster_zeroed:
  "(\<forall>i. 0 \<le> rand i \<and> rand i < 1) \<longrightarrow>
   trainVqCodebook [[Fin 2], [Fin 2]] 2 (Suc n) tol rand = Inr [[Fin 2], [Fin 0]]"
proof
  assume r: "\<forall>i. 0 \<le> rand i \<and> rand i < 1"
  have "init_codebook [[Fin 2], [Fin 2]] 2 rand = [[Fin 2], [Fin 2]]"
    using r by (simp add: init_codebook_def upt_rec kmeans_pick)
  then show "trainVqCodebook [[Fin 2], [Fin 2]] 2 (Suc n) tol rand = Inr [[Fin 2], [Fin 0]]"
    using kmeans_loop_example[of "[[Fin 2], [Fin 2]]" tol n]
    by (simp add: trainVqCodebook_def del: kmeans_loop.simps)
qed

theorem trainVqCodebook_empty_cluster_zeroed_witness:
  "trainVqCodebook [[Fin 2], [Fin 2]] 2 100 (Fin (1 / 10000)) (\<lambda>i. 0) = Inr [[Fin 2], [Fin 0]]"
  using trainVqCodebook_empty_cluster_zeroed[of "\<lambda>i. 0" 99 "Fin (1 / 10000)"] by simp

end
